theory Spec2Isabelle
  imports Main "HOL-Library.Multiset"
begin

section \<open>GitHub Monitor: the server's aggregation routes\<close>

text \<open>
  The server (Express, one file) answers \<^verbatim>\<open>GET /api/prs\<close> and \<^verbatim>\<open>GET /api/workflows\<close> by
  fanning out requests to the GitHub REST API and merging the replies. The embedding below
  follows that file function by function.

  \<^item> An \<^verbatim>\<open>async\<close> function is a function into \<open>error + 'a\<close>: \<open>Inl\<close> is a rejected promise
    (a \<^verbatim>\<open>throw\<close>), \<open>Inr\<close> a fulfilled one. A \<^verbatim>\<open>try\<close>/\<^verbatim>\<open>catch\<close> is a case distinction on that sum.
  \<^item> The upstream API is a record of functions, one per endpoint the code calls, from the
    parts the code puts into the URL to what \<^verbatim>\<open>fetch\<close> delivers for it.
  \<^item> A JSON object is a record of the fields the code reads. A field the code guards
    against \<^verbatim>\<open>null\<close>/\<^verbatim>\<open>undefined\<close> (\<^verbatim>\<open>run.head_branch &&\<close>, \<^verbatim>\<open>run.pull_requests || []\<close>,
    \<^verbatim>\<open>run.head_sha?.\<close>, \<^verbatim>\<open>requestedReviewers.users || []\<close>) is an \<open>option\<close>. So is the
    \<^verbatim>\<open>user\<close> of a review and of a pull request, which the API may send as \<^verbatim>\<open>null\<close> and the
    code dereferences unguarded: reading \<^verbatim>\<open>.login\<close> of it then throws a \<^verbatim>\<open>TypeError\<close>. The
    other fields the code reads are taken as present.
  \<^item> A timestamp field (\<^verbatim>\<open>created_at\<close>) is the time value, in milliseconds since the epoch,
    that \<^verbatim>\<open>new Date(created_at)\<close> yields for the ISO 8601 string GitHub sends; the code only
    ever compares and subtracts these values and passes the field through.
\<close>

subsection \<open>Errors, replies and \<^verbatim>\<open>githubRequest\<close>\<close>

type_synonym timestamp = int

datatype error =
    FetchError string
  | GitHubApiError nat string string
  | JsonError
  | TypeError

text \<open>
  What \<^verbatim>\<open>fetch(url, ...)\<close> delivers: a rejection (network failure), or a response with its
  status, status text, body text and, when the body parses, the parsed JSON value. The
  request headers \<open>githubRequest\<close> builds from the token select nothing in its own
  control flow, so \<open>githubRequest\<close> is a function of what \<^verbatim>\<open>fetch\<close> delivers: it throws on
  a rejection, on a status outside 200..299 and on a body \<^verbatim>\<open>response.json()\<close> cannot
  parse.
\<close>

datatype 'a fetched =
    Rejected string
  | HttpResponse nat string string "'a option"

definition response_ok :: "nat \<Rightarrow> bool" where
  "response_ok status = (200 \<le> status \<and> status \<le> 299)"

fun githubRequest :: "'a fetched \<Rightarrow> error + 'a" where
  "githubRequest (Rejected msg) = Inl (FetchError msg)"
| "githubRequest (HttpResponse status statusText errorText body) =
     (if \<not> response_ok status then Inl (GitHubApiError status statusText errorText)
      else (case body of None \<Rightarrow> Inl JsonError | Some json \<Rightarrow> Inr json))"

definition promise_all2 :: "error + 'a \<Rightarrow> error + 'b \<Rightarrow> error + ('a \<times> 'b)" where
  "promise_all2 p q =
     (case p of
        Inl e \<Rightarrow> Inl e
      | Inr a \<Rightarrow> (case q of Inl e \<Rightarrow> Inl e | Inr b \<Rightarrow> Inr (a, b)))"

definition promise_all3 ::
  "error + 'a \<Rightarrow> error + 'b \<Rightarrow> error + 'c \<Rightarrow> error + ('a \<times> 'b \<times> 'c)" where
  "promise_all3 p q r =
     (case p of
        Inl e \<Rightarrow> Inl e
      | Inr a \<Rightarrow> (case promise_all2 q r of Inl e \<Rightarrow> Inl e | Inr bc \<Rightarrow> Inr (a, bc)))"

subsection \<open>Array callbacks that may throw\<close>

text \<open>
  \<^verbatim>\<open>xs.map(f)\<close> and \<^verbatim>\<open>xs.filter(p)\<close> call the callback on the elements from left to right;
  the first call that throws ends the whole expression with that exception.
\<close>

fun array_map :: "('a \<Rightarrow> error + 'b) \<Rightarrow> 'a list \<Rightarrow> error + 'b list" where
  "array_map f [] = Inr []"
| "array_map f (x # xs) =
     (case f x of
        Inl e \<Rightarrow> Inl e
      | Inr y \<Rightarrow> (case array_map f xs of Inl e \<Rightarrow> Inl e | Inr ys \<Rightarrow> Inr (y # ys)))"

fun array_filter :: "('a \<Rightarrow> error + bool) \<Rightarrow> 'a list \<Rightarrow> error + 'a list" where
  "array_filter p [] = Inr []"
| "array_filter p (x # xs) =
     (case p x of
        Inl e \<Rightarrow> Inl e
      | Inr keep \<Rightarrow>
          (case array_filter p xs of
             Inl e \<Rightarrow> Inl e
           | Inr ys \<Rightarrow> Inr (if keep then x # ys else ys)))"

subsection \<open>\<^verbatim>\<open>Array.prototype.sort\<close> with a comparator\<close>

text \<open>
  \<^verbatim>\<open>xs.sort(cmp)\<close> is a stable sort (ECMAScript 2019 and later, Node 11 and later): \<open>a\<close>
  stays before \<open>b\<close> unless \<open>cmp a b > 0\<close>. For a consistent comparator the result is
  determined by that; insertion from the right computes it.
\<close>

fun js_insert :: "('a \<Rightarrow> 'a \<Rightarrow> int) \<Rightarrow> 'a \<Rightarrow> 'a list \<Rightarrow> 'a list" where
  "js_insert cmp a [] = [a]"
| "js_insert cmp a (b # bs) = (if cmp a b \<le> 0 then a # b # bs else b # js_insert cmp a bs)"

definition js_sort :: "('a \<Rightarrow> 'a \<Rightarrow> int) \<Rightarrow> 'a list \<Rightarrow> 'a list" where
  "js_sort cmp xs = foldr (js_insert cmp) xs []"

text \<open>The comparator \<^verbatim>\<open>(a, b) => new Date(b.created_at) - new Date(a.created_at)\<close>.\<close>

definition newest_first :: "('a \<Rightarrow> timestamp) \<Rightarrow> 'a \<Rightarrow> 'a \<Rightarrow> int" where
  "newest_first created_at a b = created_at b - created_at a"

subsection \<open>Upstream JSON\<close>

record account =
  login :: string

record team =
  slug :: string
  team_name :: string

record review =
  review_state :: string
  review_user :: "account option"
  review_submitted_at :: "string option"
  review_author_association :: string

record requested_reviewers =
  rr_users :: "account list option"
  rr_teams :: "team list option"

record comment =
  comment_id :: nat
  comment_created_at :: timestamp

record workflow_run =
  run_id :: nat
  run_name :: string
  run_status :: string
  run_conclusion :: "string option"
  run_created_at :: timestamp
  run_updated_at :: timestamp
  run_html_url :: string
  run_head_branch :: "string option"
  run_head_sha :: "string option"
  run_pull_requests :: "nat list option"

record workflows_page =
  workflow_runs :: "workflow_run list"

record branch_ref =
  ref :: string
  sha :: string

record pull =
  pull_id :: nat
  pull_number :: nat
  pull_title :: string
  pull_html_url :: string
  pull_head :: branch_ref
  pull_base :: branch_ref
  pull_created_at :: timestamp
  pull_updated_at :: timestamp
  pull_user :: "account option"
  pull_draft :: bool
  pull_mergeable :: "bool option"

text \<open>
  The endpoints, by the parts of the URL: owner and repository name, then the PR number,
  the head SHA or the actor.
\<close>

record upstream =
  pulls_open :: "string \<Rightarrow> string \<Rightarrow> pull list fetched"
  pull_reviews :: "string \<Rightarrow> string \<Rightarrow> nat \<Rightarrow> review list fetched"
  pull_requested_reviewers :: "string \<Rightarrow> string \<Rightarrow> nat \<Rightarrow> requested_reviewers fetched"
  issue_comments :: "string \<Rightarrow> string \<Rightarrow> nat \<Rightarrow> comment list fetched"
  pull_comments :: "string \<Rightarrow> string \<Rightarrow> nat \<Rightarrow> comment list fetched"
  runs_by_head_sha :: "string \<Rightarrow> string \<Rightarrow> string \<Rightarrow> workflows_page fetched"
  runs_by_actor :: "string \<Rightarrow> string \<Rightarrow> string \<Rightarrow> workflows_page fetched"

record config =
  username :: string
  repositories :: "string list"

subsection \<open>\<^verbatim>\<open>getPRReviews\<close>\<close>

record review_entry =
  entry_user :: string
  entry_submitted_at :: "string option"
  entry_author_association :: string

record requested_user =
  ru_user :: string
  ru_type :: string

record requested_team =
  rt_team :: string
  rt_name :: string
  rt_type :: string

record review_summary =
  approving :: "review_entry list"
  changesRequested :: "review_entry list"
  pending :: "review_entry list"
  requestedUsers :: "requested_user list"
  requestedTeams :: "requested_team list"

text \<open>The callback of the three \<^verbatim>\<open>.map\<close> calls; \<^verbatim>\<open>review.user.login\<close> throws on a \<^verbatim>\<open>null\<close> user.\<close>

definition review_entry_of :: "review \<Rightarrow> error + review_entry" where
  "review_entry_of r =
     (case review_user r of
        None \<Rightarrow> Inl TypeError
      | Some u \<Rightarrow>
          Inr \<lparr> entry_user = login u,
                entry_submitted_at = review_submitted_at r,
                entry_author_association = review_author_association r \<rparr>)"

definition requested_user_of :: "account \<Rightarrow> requested_user" where
  "requested_user_of u = \<lparr> ru_user = login u, ru_type = ''user'' \<rparr>"

definition requested_team_of :: "team \<Rightarrow> requested_team" where
  "requested_team_of t = \<lparr> rt_team = slug t, rt_name = team_name t, rt_type = ''team'' \<rparr>"

text \<open>\<^verbatim>\<open>x || []\<close> on a field that is an array or \<^verbatim>\<open>null\<close>/absent.\<close>

definition or_empty :: "'a list option \<Rightarrow> 'a list" where
  "or_empty v = (case v of None \<Rightarrow> [] | Some xs \<Rightarrow> xs)"

definition empty_summary :: review_summary where
  "empty_summary =
     \<lparr> approving = [], changesRequested = [], pending = [],
       requestedUsers = [], requestedTeams = [] \<rparr>"

text \<open>
  The body of the \<^verbatim>\<open>try\<close> after the two fetches: the three classified lists in source
  order, then the result object.
\<close>

definition summarise :: "review list \<Rightarrow> requested_reviewers \<Rightarrow> error + review_summary" where
  "summarise reviews requestedReviewers =
     (case array_map review_entry_of
             (filter (\<lambda>r. review_state r = ''APPROVED'') reviews) of
        Inl e \<Rightarrow> Inl e
      | Inr approving' \<Rightarrow>
     (case array_map review_entry_of
             (filter (\<lambda>r. review_state r = ''CHANGES_REQUESTED'') reviews) of
        Inl e \<Rightarrow> Inl e
      | Inr changesRequested' \<Rightarrow>
     (case array_map review_entry_of
             (filter (\<lambda>r. review_state r = ''PENDING'') reviews) of
        Inl e \<Rightarrow> Inl e
      | Inr pending' \<Rightarrow>
          Inr \<lparr> approving = approving',
                changesRequested = changesRequested',
                pending = pending',
                requestedUsers = map requested_user_of (or_empty (rr_users requestedReviewers)),
                requestedTeams =
                  map requested_team_of (or_empty (rr_teams requestedReviewers)) \<rparr>)))"

definition getPRReviews :: "upstream \<Rightarrow> string \<Rightarrow> string \<Rightarrow> nat \<Rightarrow> error + review_summary" where
  "getPRReviews up owner repo prNumber =
     (case promise_all2
             (githubRequest (pull_reviews up owner repo prNumber))
             (githubRequest (pull_requested_reviewers up owner repo prNumber)) of
        Inr (reviews, requestedReviewers) \<Rightarrow>
          (case summarise reviews requestedReviewers of
             Inr result \<Rightarrow> Inr result
           | Inl e \<Rightarrow> Inr empty_summary)
      | Inl e \<Rightarrow> Inr empty_summary)"

subsection \<open>\<^verbatim>\<open>getLatestPRComment\<close>\<close>

text \<open>
  \<^verbatim>\<open>allComments[0].created_at\<close> after the sort; on an empty array the read would throw a
  \<^verbatim>\<open>TypeError\<close> inside the \<^verbatim>\<open>try\<close>, which the \<^verbatim>\<open>catch\<close> turns into \<^verbatim>\<open>null\<close>.
\<close>

definition latest_of :: "comment list \<Rightarrow> error + timestamp option" where
  "latest_of allComments =
     (if length allComments = 0 then Inr None
      else (case js_sort (newest_first comment_created_at) allComments of
              [] \<Rightarrow> Inl TypeError
            | c # _ \<Rightarrow> Inr (Some (comment_created_at c))))"

definition getLatestPRComment ::
  "upstream \<Rightarrow> string \<Rightarrow> string \<Rightarrow> nat \<Rightarrow> error + timestamp option" where
  "getLatestPRComment up owner repo prNumber =
     (case promise_all2
             (githubRequest (issue_comments up owner repo prNumber))
             (githubRequest (pull_comments up owner repo prNumber)) of
        Inr (issueComments, reviewComments) \<Rightarrow>
          (case latest_of (issueComments @ reviewComments) of
             Inr v \<Rightarrow> Inr v
           | Inl e \<Rightarrow> Inr None)
      | Inl e \<Rightarrow> Inr None)"

subsection \<open>\<^verbatim>\<open>getPRWorkflows\<close>\<close>

record pr_workflow =
  wf_id :: nat
  wf_name :: string
  wf_status :: string
  wf_conclusion :: "string option"
  wf_created_at :: timestamp
  wf_updated_at :: timestamp
  wf_html_url :: string

definition pr_workflow_of :: "workflow_run \<Rightarrow> pr_workflow" where
  "pr_workflow_of run =
     \<lparr> wf_id = run_id run, wf_name = run_name run, wf_status = run_status run,
       wf_conclusion = run_conclusion run, wf_created_at = run_created_at run,
       wf_updated_at = run_updated_at run, wf_html_url = run_html_url run \<rparr>"

definition getPRWorkflows ::
  "upstream \<Rightarrow> string \<Rightarrow> string \<Rightarrow> nat \<Rightarrow> string \<Rightarrow> error + pr_workflow list" where
  "getPRWorkflows up owner repo prNumber headSha =
     (case githubRequest (runs_by_head_sha up owner repo headSha) of
        Inr workflows \<Rightarrow> Inr (map pr_workflow_of (workflow_runs workflows))
      | Inl e \<Rightarrow> Inr [])"

subsection \<open>Configured repositories\<close>

text \<open>
  \<^verbatim>\<open>const [owner, repoName] = repo.split('/')\<close>: the first two segments; a missing second
  segment is \<^verbatim>\<open>undefined\<close>, which the URL template prints as the text \<^verbatim>\<open>undefined\<close>.
\<close>

fun split_on :: "char \<Rightarrow> string \<Rightarrow> string list" where
  "split_on sep [] = ['''']"
| "split_on sep (c # cs) =
     (if c = sep then [] # split_on sep cs
      else (case split_on sep cs of
              [] \<Rightarrow> [c] # []
            | w # ws \<Rightarrow> (c # w) # ws))"

definition split_repo :: "string \<Rightarrow> string \<times> string" where
  "split_repo repo =
     (case split_on CHR ''/'' repo of
        owner # repoName # _ \<Rightarrow> (owner, repoName)
      | [owner] \<Rightarrow> (owner, ''undefined'')
      | [] \<Rightarrow> (''undefined'', ''undefined''))"

subsection \<open>\<^verbatim>\<open>getUserWorkflows\<close>\<close>

text \<open>
  \<^verbatim>\<open>threeDaysAgo.setDate(threeDaysAgo.getDate() - 3)\<close> works on the local calendar: the
  time value is moved to local time with the zone's offset now, three days of
  \<open>msPerDay\<close> are taken off, and the result is moved back with the offset in force at
  that local time. With one offset throughout (UTC, or no clock change in the window) this
  is \<open>now - 3 * msPerDay\<close>.
\<close>

record clock =
  now :: timestamp
  tza_now :: int
  tza_then :: int

definition msPerDay :: int where
  "msPerDay = 86400000"

definition threeDaysAgo :: "clock \<Rightarrow> timestamp" where
  "threeDaysAgo clk = now clk + tza_now clk - 3 * msPerDay - tza_then clk"

definition startsWith :: "string \<Rightarrow> string \<Rightarrow> bool" where
  "startsWith s p = (take (length p) s = p)"

text \<open>\<^verbatim>\<open>run.head_branch && run.head_branch.startsWith('refs/pull/')\<close>: \<^verbatim>\<open>null\<close>, \<^verbatim>\<open>undefined\<close>
  and the empty string are falsy.\<close>

definition is_pull_ref :: "string option \<Rightarrow> bool" where
  "is_pull_ref head_branch =
     (case head_branch of
        None \<Rightarrow> False
      | Some b \<Rightarrow> b \<noteq> [] \<and> startsWith b ''refs/pull/'')"

record standalone_run =
  sr_id :: nat
  sr_name :: string
  sr_repository :: string
  sr_status :: string
  sr_conclusion :: "string option"
  sr_created_at :: timestamp
  sr_updated_at :: timestamp
  sr_html_url :: string
  sr_head_branch :: "string option"
  sr_head_sha :: "string option"

definition standalone_run_of :: "string \<Rightarrow> workflow_run \<Rightarrow> standalone_run" where
  "standalone_run_of repo run =
     \<lparr> sr_id = run_id run, sr_name = run_name run, sr_repository = repo,
       sr_status = run_status run, sr_conclusion = run_conclusion run,
       sr_created_at = run_created_at run, sr_updated_at = run_updated_at run,
       sr_html_url = run_html_url run, sr_head_branch = run_head_branch run,
       sr_head_sha = map_option (take 7) (run_head_sha run) \<rparr>"

text \<open>The loop over \<^verbatim>\<open>workflows.workflow_runs\<close>, with \<open>allRuns\<close> passed through.\<close>

fun for_runs ::
  "timestamp \<Rightarrow> string \<Rightarrow> workflow_run list \<Rightarrow> standalone_run list \<Rightarrow> standalone_run list" where
  "for_runs cutoff repo [] allRuns = allRuns"
| "for_runs cutoff repo (run # runs) allRuns =
     (if run_created_at run < cutoff then for_runs cutoff repo runs allRuns
      else if is_pull_ref (run_head_branch run) then for_runs cutoff repo runs allRuns
      else if length (or_empty (run_pull_requests run)) = 0
        then for_runs cutoff repo runs (allRuns @ [standalone_run_of repo run])
      else for_runs cutoff repo runs allRuns)"

text \<open>The loop over \<^verbatim>\<open>REPOSITORIES\<close>; its \<^verbatim>\<open>catch\<close> only logs.\<close>

fun for_repos_runs ::
  "config \<Rightarrow> upstream \<Rightarrow> timestamp \<Rightarrow> string list \<Rightarrow> standalone_run list \<Rightarrow> standalone_run list"
  where
  "for_repos_runs cfg up cutoff [] allRuns = allRuns"
| "for_repos_runs cfg up cutoff (repo # repos) allRuns =
     (case split_repo repo of
        (owner, repoName) \<Rightarrow>
          (case githubRequest (runs_by_actor up owner repoName (username cfg)) of
             Inr workflows \<Rightarrow>
               for_repos_runs cfg up cutoff repos
                 (for_runs cutoff repo (workflow_runs workflows) allRuns)
           | Inl e \<Rightarrow> for_repos_runs cfg up cutoff repos allRuns))"

definition getUserWorkflows :: "config \<Rightarrow> clock \<Rightarrow> upstream \<Rightarrow> error + standalone_run list" where
  "getUserWorkflows cfg clk up =
     Inr (js_sort (newest_first sr_created_at)
            (for_repos_runs cfg up (threeDaysAgo clk) (repositories cfg) []))"

subsection \<open>The routes\<close>

datatype 'a reply =
    Ok200 'a
  | Error500 string

record pr_record =
  pr_id :: nat
  pr_number :: nat
  pr_title :: string
  pr_repository :: string
  pr_html_url :: string
  pr_head_branch :: string
  pr_base_branch :: string
  pr_created_at :: timestamp
  pr_updated_at :: timestamp
  pr_author :: string
  pr_draft :: bool
  pr_mergeable :: "bool option"
  pr_reviews :: review_summary
  pr_latest_comment :: "timestamp option"
  pr_workflows :: "pr_workflow list"

text \<open>
  The object pushed for one pull request; \<^verbatim>\<open>author: pr.user.login\<close> throws on a \<^verbatim>\<open>null\<close>
  user.
\<close>

definition pr_record_of ::
  "string \<Rightarrow> pull \<Rightarrow> review_summary \<Rightarrow> timestamp option \<Rightarrow> pr_workflow list
     \<Rightarrow> error + pr_record" where
  "pr_record_of repo pr reviews latestComment workflows =
     (case pull_user pr of
        None \<Rightarrow> Inl TypeError
      | Some u \<Rightarrow>
          Inr \<lparr> pr_id = pull_id pr, pr_number = pull_number pr, pr_title = pull_title pr,
                pr_repository = repo, pr_html_url = pull_html_url pr,
                pr_head_branch = ref (pull_head pr), pr_base_branch = ref (pull_base pr),
                pr_created_at = pull_created_at pr, pr_updated_at = pull_updated_at pr,
                pr_author = login u, pr_draft = pull_draft pr,
                pr_mergeable = pull_mergeable pr, pr_reviews = reviews,
                pr_latest_comment = latestComment, pr_workflows = workflows \<rparr>)"

text \<open>
  The callback \<^verbatim>\<open>pr => pr.user.login === GITHUB_USERNAME\<close> of \<^verbatim>\<open>prs.filter\<close>; it throws on
  a \<^verbatim>\<open>null\<close> user.
\<close>

definition authored_by_user :: "config \<Rightarrow> pull \<Rightarrow> error + bool" where
  "authored_by_user cfg pr =
     (case pull_user pr of
        None \<Rightarrow> Inl TypeError
      | Some u \<Rightarrow> Inr (login u = username cfg))"

text \<open>
  The loop over \<^verbatim>\<open>userPRs\<close> inside the inner \<^verbatim>\<open>try\<close>. It returns the exception that left
  it, if one did, and \<open>allPRs\<close> as it stood then: a \<^verbatim>\<open>push\<close> is not undone by a later throw.
\<close>

fun for_userPRs ::
  "upstream \<Rightarrow> string \<Rightarrow> string \<Rightarrow> string \<Rightarrow> pull list \<Rightarrow> pr_record list
     \<Rightarrow> error option \<times> pr_record list" where
  "for_userPRs up repo owner repoName [] allPRs = (None, allPRs)"
| "for_userPRs up repo owner repoName (pr # prs) allPRs =
     (case promise_all3
             (getPRReviews up owner repoName (pull_number pr))
             (getLatestPRComment up owner repoName (pull_number pr))
             (getPRWorkflows up owner repoName (pull_number pr) (sha (pull_head pr))) of
        Inl e \<Rightarrow> (Some e, allPRs)
      | Inr (reviews, latestComment, workflows) \<Rightarrow>
          (case pr_record_of repo pr reviews latestComment workflows of
             Inl e \<Rightarrow> (Some e, allPRs)
           | Inr record \<Rightarrow> for_userPRs up repo owner repoName prs (allPRs @ [record])))"

text \<open>The body of the inner \<^verbatim>\<open>try\<close> for one repository.\<close>

definition prs_try_block ::
  "config \<Rightarrow> upstream \<Rightarrow> string \<Rightarrow> pr_record list \<Rightarrow> error option \<times> pr_record list" where
  "prs_try_block cfg up repo allPRs =
     (case split_repo repo of
        (owner, repoName) \<Rightarrow>
          (case githubRequest (pulls_open up owner repoName) of
             Inl e \<Rightarrow> (Some e, allPRs)
           | Inr prs \<Rightarrow>
               (case array_filter (authored_by_user cfg) prs of
                  Inl e \<Rightarrow> (Some e, allPRs)
                | Inr userPRs \<Rightarrow> for_userPRs up repo owner repoName userPRs allPRs)))"

text \<open>The loop over \<^verbatim>\<open>REPOSITORIES\<close>: the inner \<^verbatim>\<open>catch\<close> logs and the loop goes on.\<close>

fun for_repos_prs :: "config \<Rightarrow> upstream \<Rightarrow> string list \<Rightarrow> pr_record list \<Rightarrow> pr_record list" where
  "for_repos_prs cfg up [] allPRs = allPRs"
| "for_repos_prs cfg up (repo # repos) allPRs =
     (case prs_try_block cfg up repo allPRs of
        (None, allPRs') \<Rightarrow> for_repos_prs cfg up repos allPRs'
      | (Some e, allPRs') \<Rightarrow> for_repos_prs cfg up repos allPRs')"

text \<open>The body of the outer \<^verbatim>\<open>try\<close> of \<^verbatim>\<open>app.get('/api/prs')\<close>, and the route.\<close>

definition api_prs_body :: "config \<Rightarrow> upstream \<Rightarrow> error + pr_record list" where
  "api_prs_body cfg up =
     Inr (js_sort (newest_first pr_created_at) (for_repos_prs cfg up (repositories cfg) []))"

definition api_prs :: "config \<Rightarrow> upstream \<Rightarrow> pr_record list reply" where
  "api_prs cfg up =
     (case api_prs_body cfg up of
        Inr allPRs \<Rightarrow> Ok200 allPRs
      | Inl e \<Rightarrow> Error500 ''Failed to fetch PRs'')"

definition api_workflows :: "config \<Rightarrow> clock \<Rightarrow> upstream \<Rightarrow> standalone_run list reply" where
  "api_workflows cfg clk up =
     (case getUserWorkflows cfg clk up of
        Inr workflows \<Rightarrow> Ok200 workflows
      | Inl e \<Rightarrow> Error500 ''Failed to fetch workflows'')"

section \<open>Notions the properties are stated with\<close>

subsection \<open>Who appears in a review summary\<close>

text \<open>
  A reviewer is a user, known by login, or a team, known by slug; the entries of the three
  classified sequences and of \<open>requestedUsers\<close> name users, those of \<open>requestedTeams\<close>
  name teams.
\<close>

datatype reviewer = UserReviewer string | TeamReviewer string

definition in_approving :: "review_summary \<Rightarrow> reviewer set" where
  "in_approving s = UserReviewer ` entry_user ` set (approving s)"

definition in_changesRequested :: "review_summary \<Rightarrow> reviewer set" where
  "in_changesRequested s = UserReviewer ` entry_user ` set (changesRequested s)"

definition in_pending :: "review_summary \<Rightarrow> reviewer set" where
  "in_pending s = UserReviewer ` entry_user ` set (pending s)"

definition in_requestedUsers :: "review_summary \<Rightarrow> reviewer set" where
  "in_requestedUsers s = UserReviewer ` ru_user ` set (requestedUsers s)"

definition in_requestedTeams :: "review_summary \<Rightarrow> reviewer set" where
  "in_requestedTeams s = TeamReviewer ` rt_team ` set (requestedTeams s)"

definition at_most_one_sequence :: "review_summary \<Rightarrow> bool" where
  "at_most_one_sequence s =
     (in_approving s \<inter> in_changesRequested s = {} \<and>
      in_approving s \<inter> in_pending s = {} \<and>
      in_approving s \<inter> in_requestedUsers s = {} \<and>
      in_approving s \<inter> in_requestedTeams s = {} \<and>
      in_changesRequested s \<inter> in_pending s = {} \<and>
      in_changesRequested s \<inter> in_requestedUsers s = {} \<and>
      in_changesRequested s \<inter> in_requestedTeams s = {} \<and>
      in_pending s \<inter> in_requestedUsers s = {} \<and>
      in_pending s \<inter> in_requestedTeams s = {} \<and>
      in_requestedUsers s \<inter> in_requestedTeams s = {})"

definition classified_state :: "string \<Rightarrow> bool" where
  "classified_state st = (st = ''APPROVED'' \<or> st = ''CHANGES_REQUESTED'' \<or> st = ''PENDING'')"

text \<open>The login of a review's author, when the review has one.\<close>

definition review_login :: "review \<Rightarrow> string option" where
  "review_login r = map_option login (review_user r)"

definition snapshot_consistent :: "review list \<Rightarrow> requested_reviewers \<Rightarrow> bool" where
  "snapshot_consistent reviews rr =
     ((\<forall>r \<in> set reviews. \<forall>r' \<in> set reviews.
         classified_state (review_state r) \<and> classified_state (review_state r') \<and>
         review_login r \<noteq> None \<and> review_login r = review_login r' \<longrightarrow>
           review_state r = review_state r') \<and>
      (\<forall>u \<in> set (or_empty (rr_users rr)). \<forall>r \<in> set reviews.
         classified_state (review_state r) \<longrightarrow> review_login r \<noteq> Some (login u)))"

text \<open>Every review that one of the three \<^verbatim>\<open>.map\<close> calls reaches has a user.\<close>

definition classified_have_user :: "review list \<Rightarrow> bool" where
  "classified_have_user reviews =
     (\<forall>r \<in> set reviews. classified_state (review_state r) \<longrightarrow> review_user r \<noteq> None)"

subsection \<open>The standalone-run filters\<close>

text \<open>
  What the actor's run list of a configured repository delivers, the three tests a run
  has to pass in the loop, and what one repository adds to \<open>allRuns\<close>.
\<close>

definition fetched_runs :: "config \<Rightarrow> upstream \<Rightarrow> string \<Rightarrow> error + workflow_run list" where
  "fetched_runs cfg up repo =
     (case split_repo repo of
        (owner, repoName) \<Rightarrow>
          (case githubRequest (runs_by_actor up owner repoName (username cfg)) of
             Inr workflows \<Rightarrow> Inr (workflow_runs workflows)
           | Inl e \<Rightarrow> Inl e))"

definition passes_filters :: "timestamp \<Rightarrow> workflow_run \<Rightarrow> bool" where
  "passes_filters cutoff run =
     (\<not> run_created_at run < cutoff \<and> \<not> is_pull_ref (run_head_branch run) \<and>
      or_empty (run_pull_requests run) = [])"

definition repo_standalone :: "config \<Rightarrow> upstream \<Rightarrow> timestamp \<Rightarrow> string \<Rightarrow> standalone_run list" where
  "repo_standalone cfg up cutoff repo =
     (case fetched_runs cfg up repo of
        Inr runs \<Rightarrow> map (standalone_run_of repo) (filter (passes_filters cutoff) runs)
      | Inl e \<Rightarrow> [])"

subsection \<open>What one repository contributes to \<^verbatim>\<open>/api/prs\<close>\<close>

text \<open>
  What the open-PR list of a configured repository delivers; the record the loop pushes
  for one of its pull requests, built from what the three helpers return for it; the
  records one repository adds to \<open>allPRs\<close>, which is what its inner \<^verbatim>\<open>try\<close> leaves in an
  empty \<open>allPRs\<close>; whether a pull request is the configured user's; and whether every
  pull request of a list has a user.
\<close>

definition fetched_pulls :: "upstream \<Rightarrow> string \<Rightarrow> error + pull list" where
  "fetched_pulls up repo =
     (case split_repo repo of
        (owner, repoName) \<Rightarrow> githubRequest (pulls_open up owner repoName))"

definition aggregated :: "upstream \<Rightarrow> string \<Rightarrow> pull \<Rightarrow> error + pr_record" where
  "aggregated up repo pr =
     (case split_repo repo of
        (owner, repoName) \<Rightarrow>
          pr_record_of repo pr
            (case getPRReviews up owner repoName (pull_number pr) of
               Inr s \<Rightarrow> s | Inl e \<Rightarrow> empty_summary)
            (case getLatestPRComment up owner repoName (pull_number pr) of
               Inr t \<Rightarrow> t | Inl e \<Rightarrow> None)
            (case getPRWorkflows up owner repoName (pull_number pr) (sha (pull_head pr)) of
               Inr ws \<Rightarrow> ws | Inl e \<Rightarrow> []))"

definition repo_prs :: "config \<Rightarrow> upstream \<Rightarrow> string \<Rightarrow> pr_record list" where
  "repo_prs cfg up repo = snd (prs_try_block cfg up repo [])"

definition own_pull :: "config \<Rightarrow> pull \<Rightarrow> bool" where
  "own_pull cfg pr = (map_option login (pull_user pr) = Some (username cfg))"

definition pulls_have_user :: "pull list \<Rightarrow> bool" where
  "pulls_have_user pulls = (\<forall>pr \<in> set pulls. pull_user pr \<noteq> None)"

section \<open>Example inputs\<close>

text \<open>
  Concrete upstream replies, configurations and clocks on which the properties below are
  evaluated. \<open>quiet_upstream\<close> answers every request with 200 and an empty payload; the
  others change single endpoints of it.
\<close>

definition mk_review :: "string \<Rightarrow> string \<Rightarrow> review" where
  "mk_review who st =
     \<lparr> review_state = st, review_user = Some \<lparr> login = who \<rparr>,
       review_submitted_at = Some ''2024-05-01T10:00:00Z'',
       review_author_association = ''MEMBER'' \<rparr>"

text \<open>A review whose author's account is gone: \<^verbatim>\<open>user\<close> is \<^verbatim>\<open>null\<close>.\<close>

definition ghost_review :: "string \<Rightarrow> review" where
  "ghost_review st =
     \<lparr> review_state = st, review_user = None,
       review_submitted_at = Some ''2023-01-15T08:30:00Z'',
       review_author_association = ''NONE'' \<rparr>"

definition ok_json :: "'a \<Rightarrow> 'a fetched" where
  "ok_json v = HttpResponse 200 ''OK'' [] (Some v)"

definition not_found :: "string \<Rightarrow> 'a fetched" where
  "not_found errorText = HttpResponse 404 ''Not Found'' errorText None"

definition quiet_upstream :: upstream where
  "quiet_upstream =
     \<lparr> pulls_open = (\<lambda>owner repo. ok_json []),
       pull_reviews = (\<lambda>owner repo n. ok_json []),
       pull_requested_reviewers = (\<lambda>owner repo n. ok_json \<lparr> rr_users = Some [], rr_teams = Some [] \<rparr>),
       issue_comments = (\<lambda>owner repo n. ok_json []),
       pull_comments = (\<lambda>owner repo n. ok_json []),
       runs_by_head_sha = (\<lambda>owner repo sha. ok_json \<lparr> workflow_runs = [] \<rparr>),
       runs_by_actor = (\<lambda>owner repo actor. ok_json \<lparr> workflow_runs = [] \<rparr>) \<rparr>"

text \<open>alice approved, then her review was requested again.\<close>

definition rerequested_upstream :: upstream where
  "rerequested_upstream =
     quiet_upstream
       \<lparr> pull_reviews := (\<lambda>owner repo n. ok_json [mk_review ''alice'' ''APPROVED'']),
         pull_requested_reviewers :=
           (\<lambda>owner repo n. ok_json \<lparr> rr_users = Some [\<lparr> login = ''alice'' \<rparr>], rr_teams = Some [] \<rparr>) \<rparr>"

text \<open>The review list arrives, the requested reviewers do not.\<close>

definition half_failed_upstream :: upstream where
  "half_failed_upstream =
     quiet_upstream
       \<lparr> pull_reviews := (\<lambda>owner repo n. ok_json [mk_review ''alice'' ''APPROVED'']),
         pull_requested_reviewers :=
           (\<lambda>owner repo n. HttpResponse 500 ''Internal Server Error'' ''upstream failed'' None) \<rparr>"

text \<open>Both replies arrive; one review that requests changes has no user.\<close>

definition ghost_review_upstream :: upstream where
  "ghost_review_upstream =
     quiet_upstream
       \<lparr> pull_reviews := (\<lambda>owner repo n.
            ok_json [mk_review ''alice'' ''APPROVED'', ghost_review ''CHANGES_REQUESTED'']) \<rparr>"

definition mixed_reviews :: "review list" where
  "mixed_reviews =
     [mk_review ''alice'' ''APPROVED'', mk_review ''bob'' ''COMMENTED'',
      mk_review ''carol'' ''CHANGES_REQUESTED'', mk_review ''dave'' ''DISMISSED'',
      mk_review ''erin'' ''PENDING'']"

definition mixed_upstream :: upstream where
  "mixed_upstream =
     quiet_upstream
       \<lparr> pull_reviews := (\<lambda>owner repo n. ok_json mixed_reviews),
         pull_requested_reviewers :=
           (\<lambda>owner repo n. ok_json
              \<lparr> rr_users = Some [\<lparr> login = ''frank'' \<rparr>],
                rr_teams = Some [\<lparr> slug = ''core'', team_name = ''Core'' \<rparr>] \<rparr>) \<rparr>"

definition mk_comment :: "nat \<Rightarrow> timestamp \<Rightarrow> comment" where
  "mk_comment i t = \<lparr> comment_id = i, comment_created_at = t \<rparr>"

definition comments_upstream :: upstream where
  "comments_upstream =
     quiet_upstream
       \<lparr> issue_comments := (\<lambda>owner repo n. ok_json [mk_comment 1 1714557600000, mk_comment 3 1714730400000]),
         pull_comments := (\<lambda>owner repo n.
            if n = 2 then not_found ''no such repository'' else ok_json [mk_comment 2 1714644000000]) \<rparr>"

definition rerequested_summary :: review_summary where
  "rerequested_summary =
     \<lparr> approving =
         [\<lparr> entry_user = ''alice'', entry_submitted_at = Some ''2024-05-01T10:00:00Z'',
            entry_author_association = ''MEMBER'' \<rparr>],
       changesRequested = [],
       pending = [],
       requestedUsers = [\<lparr> ru_user = ''alice'', ru_type = ''user'' \<rparr>],
       requestedTeams = [] \<rparr>"

definition mk_run ::
  "nat \<Rightarrow> timestamp \<Rightarrow> string option \<Rightarrow> nat list option \<Rightarrow> workflow_run" where
  "mk_run i t branch prs =
     \<lparr> run_id = i, run_name = ''CI'', run_status = ''completed'',
       run_conclusion = Some ''success'', run_created_at = t, run_updated_at = t,
       run_html_url = ''https://github.com/octo/app/actions/runs'',
       run_head_branch = branch, run_head_sha = Some ''0123456789abcdef'',
       run_pull_requests = prs \<rparr>"

definition noon :: clock where
  "noon = \<lparr> now = 1714996800000, tza_now = 7200000, tza_then = 7200000 \<rparr>"

definition four_days_ago :: timestamp where
  "four_days_ago = 1714651200000"

definition two_days_ago :: timestamp where
  "two_days_ago = 1714824000000"

definition octocat :: config where
  "octocat = \<lparr> username = ''octocat'', repositories = [''octo/app'', ''octo/lib''] \<rparr>"

definition runs_upstream :: upstream where
  "runs_upstream =
     quiet_upstream
       \<lparr> runs_by_actor := (\<lambda>owner repo actor.
            if owner = ''octo'' \<and> repo = ''app'' \<and> actor = ''octocat''
            then ok_json \<lparr> workflow_runs =
                   [mk_run 1 four_days_ago (Some ''main'') (Some []),
                    mk_run 2 two_days_ago (Some ''main'') (Some []),
                    mk_run 3 two_days_ago (Some ''refs/pull/42/merge'') (Some []),
                    mk_run 4 two_days_ago None None,
                    mk_run 5 two_days_ago (Some ''feature'') (Some [42])] \<rparr>
            else not_found ''no such repository'') \<rparr>"

definition mk_pull :: "nat \<Rightarrow> nat \<Rightarrow> string \<Rightarrow> timestamp \<Rightarrow> pull" where
  "mk_pull i n who t =
     \<lparr> pull_id = i, pull_number = n, pull_title = ''Fix the build'',
       pull_html_url = ''https://github.com/octo/app/pull'',
       pull_head = \<lparr> ref = ''feature'', sha = ''0123456789abcdef'' \<rparr>,
       pull_base = \<lparr> ref = ''main'', sha = ''fedcba9876543210'' \<rparr>,
       pull_created_at = t, pull_updated_at = t, pull_user = Some \<lparr> login = who \<rparr>,
       pull_draft = False, pull_mergeable = None \<rparr>"

text \<open>A pull request whose author's account is gone: \<^verbatim>\<open>user\<close> is \<^verbatim>\<open>null\<close>.\<close>

definition ghost_pull :: "nat \<Rightarrow> nat \<Rightarrow> timestamp \<Rightarrow> pull" where
  "ghost_pull i n t = (mk_pull i n [] t)\<lparr> pull_user := None \<rparr>"

definition pulls_upstream :: upstream where
  "pulls_upstream =
     quiet_upstream
       \<lparr> pulls_open := (\<lambda>owner repo.
            if owner = ''octo'' \<and> repo = ''app''
              then ok_json [mk_pull 101 4 ''octocat'' 1714557600000]
            else if owner = ''octo'' \<and> repo = ''lib''
              then ok_json [mk_pull 202 5 ''hubot'' 1714644000000,
                            mk_pull 203 6 ''octocat'' 1714557600000,
                            mk_pull 204 7 ''octocat'' 1714730400000]
            else if owner = ''octo'' \<and> repo = ''docs''
              then ok_json [mk_pull 301 9 ''hubot'' 1714644000000]
            else if owner = ''octo'' \<and> repo = ''old''
              then ok_json [mk_pull 401 11 ''octocat'' 1714557600000,
                            ghost_pull 402 12 1600000000000]
            else not_found ''no such repository'') \<rparr>"

definition octocat_on :: "string list \<Rightarrow> config" where
  "octocat_on repos = \<lparr> username = ''octocat'', repositories = repos \<rparr>"

definition broken_upstream :: upstream where
  "broken_upstream =
     pulls_upstream
       \<lparr> pull_reviews := (\<lambda>owner repo n. Rejected ''socket hang up''),
         pull_requested_reviewers :=
           (\<lambda>owner repo n. HttpResponse 500 ''Internal Server Error'' ''upstream failed'' None),
         issue_comments := (\<lambda>owner repo n. HttpResponse 403 ''Forbidden'' ''rate limit exceeded'' None),
         pull_comments := (\<lambda>owner repo n. HttpResponse 200 ''OK'' ''<html>'' None),
         runs_by_head_sha := (\<lambda>owner repo headSha. HttpResponse 502 ''Bad Gateway'' [] None) \<rparr>"

section \<open>Properties\<close>

subsection \<open>The sort\<close>

lemma js_insert_newest_first:
  "js_insert (newest_first f) a bs = insort_key (\<lambda>x. - f x) a bs"
  by (induction bs) (simp_all add: newest_first_def)

lemma js_sort_newest_first:
  "js_sort (newest_first f) xs = sort_key (\<lambda>x. - f x) xs"
  by (induction xs) (simp_all add: js_sort_def js_insert_newest_first)

lemma js_sort_mset: "mset (js_sort (newest_first f) xs) = mset xs"
  by (simp add: js_sort_newest_first)

lemma js_sort_set: "set (js_sort (newest_first f) xs) = set xs"
  by (simp add: js_sort_newest_first)

lemma js_sort_length: "length (js_sort (newest_first f) xs) = length xs"
  by (simp add: js_sort_newest_first)

lemma js_sort_descending:
  "sorted_wrt (\<lambda>a b. f b \<le> f a) (js_sort (newest_first f) xs)"
proof -
  have "sorted (map (\<lambda>x. - f x) (sort_key (\<lambda>x. - f x) xs))"
    by (rule sorted_sort_key)
  then show ?thesis
    by (simp add: js_sort_newest_first sorted_map)
qed

lemma js_sort_stable:
  "filter (\<lambda>y. f y = t) (js_sort (newest_first f) xs) = filter (\<lambda>y. f y = t) xs"
proof -
  have "filter (\<lambda>y. - f y = - t) (sort_key (\<lambda>x. - f x) xs) = filter (\<lambda>y. - f y = - t) xs"
    by (rule sort_key_stable)
  then show ?thesis
    by (simp add: js_sort_newest_first)
qed

lemma js_sort_head_is_Max:
  assumes "js_sort (newest_first f) xs = c # cs"
  shows "f c = Max (f ` set xs)"
proof -
  have s: "set xs = set (c # cs)"
    using assms js_sort_set [of f xs] by simp
  have "sorted_wrt (\<lambda>a b. f b \<le> f a) (c # cs)"
    using assms js_sort_descending [of f xs] by simp
  then have "\<forall>x \<in> set (c # cs). f x \<le> f c"
    by auto
  then show ?thesis
    unfolding s by (intro Max_eqI [symmetric]) auto
qed

subsection \<open>Requests\<close>

lemma githubRequest_ok_json: "githubRequest (ok_json v) = Inr v"
  by (simp add: ok_json_def response_ok_def)

lemma githubRequest_not_found:
  "githubRequest (not_found errorText) = Inl (GitHubApiError 404 ''Not Found'' errorText)"
  by (simp add: not_found_def response_ok_def)

lemma array_map_Inr_iff:
  "array_map f xs = Inr ys \<longleftrightarrow> list_all2 (\<lambda>x y. f x = Inr y) xs ys"
proof
  show "array_map f xs = Inr ys \<Longrightarrow> list_all2 (\<lambda>x y. f x = Inr y) xs ys"
    by (induction xs arbitrary: ys) (auto split: sum.splits)
  show "list_all2 (\<lambda>x y. f x = Inr y) xs ys \<Longrightarrow> array_map f xs = Inr ys"
    by (induction rule: list_all2_induct) auto
qed

lemma array_map_Inl_iff:
  "(\<exists>e. array_map f xs = Inl e) \<longleftrightarrow> (\<exists>x \<in> set xs. \<exists>e. f x = Inl e)"
  by (induction xs) (auto split: sum.splits)

lemma array_filter_Inr:
  assumes "\<forall>x \<in> set xs. \<exists>b. p x = Inr b"
  shows "array_filter p xs = Inr (filter (\<lambda>x. p x = Inr True) xs)"
  using assms by (induction xs) (auto split: sum.splits)

lemma array_filter_Inl:
  assumes "x \<in> set xs" and "p x = Inl e"
  shows "\<exists>e'. array_filter p xs = Inl e'"
  using assms by (induction xs) (auto split: sum.splits)

lemma getPRReviews_fulfils: "\<exists>s. getPRReviews up owner repo n = Inr s"
  by (simp add: getPRReviews_def split: sum.split prod.split)

lemma getPRReviews_success:
  assumes "githubRequest (pull_reviews up owner repo n) = Inr reviews"
    and "githubRequest (pull_requested_reviewers up owner repo n) = Inr rr"
  shows "getPRReviews up owner repo n =
           Inr (case summarise reviews rr of Inr s \<Rightarrow> s | Inl e \<Rightarrow> empty_summary)"
  using assms by (simp add: getPRReviews_def promise_all2_def split: sum.split)

lemma getPRReviews_failure:
  assumes "githubRequest (pull_reviews up owner repo n) = Inl e
         \<or> githubRequest (pull_requested_reviewers up owner repo n) = Inl e"
  shows "getPRReviews up owner repo n = Inr empty_summary"
  using assms by (auto simp add: getPRReviews_def promise_all2_def split: sum.split)

lemma review_entry_of_Inl_iff: "(\<exists>e. review_entry_of r = Inl e) \<longleftrightarrow> review_user r = None"
  by (simp add: review_entry_of_def split: option.split)

lemma summarise_Inr_iff:
  "summarise reviews rr = Inr s \<longleftrightarrow>
     list_all2 (\<lambda>r e. review_entry_of r = Inr e)
       (filter (\<lambda>r. review_state r = ''APPROVED'') reviews) (approving s) \<and>
     list_all2 (\<lambda>r e. review_entry_of r = Inr e)
       (filter (\<lambda>r. review_state r = ''CHANGES_REQUESTED'') reviews) (changesRequested s) \<and>
     list_all2 (\<lambda>r e. review_entry_of r = Inr e)
       (filter (\<lambda>r. review_state r = ''PENDING'') reviews) (pending s) \<and>
     requestedUsers s = map requested_user_of (or_empty (rr_users rr)) \<and>
     requestedTeams s = map requested_team_of (or_empty (rr_teams rr))"
  unfolding array_map_Inr_iff [symmetric]
  by (cases s) (auto simp add: summarise_def split: sum.splits)

lemma summarise_Inl_iff:
  "(\<exists>e. summarise reviews rr = Inl e) \<longleftrightarrow> \<not> classified_have_user reviews"
proof -
  have "(\<exists>e. summarise reviews rr = Inl e) \<longleftrightarrow>
      (\<exists>e. array_map review_entry_of (filter (\<lambda>r. review_state r = ''APPROVED'') reviews) = Inl e) \<or>
      (\<exists>e. array_map review_entry_of
              (filter (\<lambda>r. review_state r = ''CHANGES_REQUESTED'') reviews) = Inl e) \<or>
      (\<exists>e. array_map review_entry_of (filter (\<lambda>r. review_state r = ''PENDING'') reviews) = Inl e)"
    by (auto simp add: summarise_def split: sum.splits)
  also have "\<dots> \<longleftrightarrow> (\<exists>r \<in> set reviews. classified_state (review_state r) \<and> review_user r = None)"
    unfolding array_map_Inl_iff review_entry_of_Inl_iff classified_state_def by auto
  finally show ?thesis
    by (auto simp add: classified_have_user_def)
qed

lemma summarise_drops_other_states:
  assumes "\<not> classified_state (review_state r)"
  shows "summarise (before @ r # after) rr = summarise (before @ after) rr"
proof -
  have a: "filter (\<lambda>x. review_state x = ''APPROVED'') (before @ r # after) =
      filter (\<lambda>x. review_state x = ''APPROVED'') (before @ after)"
    using assms by (simp add: classified_state_def)
  have c: "filter (\<lambda>x. review_state x = ''CHANGES_REQUESTED'') (before @ r # after) =
      filter (\<lambda>x. review_state x = ''CHANGES_REQUESTED'') (before @ after)"
    using assms by (simp add: classified_state_def)
  have p: "filter (\<lambda>x. review_state x = ''PENDING'') (before @ r # after) =
      filter (\<lambda>x. review_state x = ''PENDING'') (before @ after)"
    using assms by (simp add: classified_state_def)
  show ?thesis
    unfolding summarise_def a c p by (rule refl)
qed

lemma at_most_one_sequence_empty: "at_most_one_sequence empty_summary"
  by (simp add: at_most_one_sequence_def empty_summary_def in_approving_def
      in_changesRequested_def in_pending_def in_requestedUsers_def in_requestedTeams_def)

lemma teams_apart:
  "in_requestedTeams s \<inter>
     (in_approving s \<union> in_changesRequested s \<union> in_pending s \<union> in_requestedUsers s) = {}"
  by (auto simp add: in_requestedTeams_def in_approving_def in_changesRequested_def
      in_pending_def in_requestedUsers_def)

lemma entries_logins:
  assumes "list_all2 (\<lambda>r e. review_entry_of r = Inr e) rs es"
  shows "entry_user ` set es = {l. \<exists>r \<in> set rs. review_login r = Some l}"
  using assms
proof (induction rule: list_all2_induct)
  case Nil
  show ?case by simp
next
  case (Cons r rs e es)
  have "review_login r = Some (entry_user e)"
    using Cons.hyps(1) by (auto simp add: review_entry_of_def review_login_def split: option.splits)
  then show ?case
    using Cons.IH by auto
qed

lemma summarise_consistent:
  assumes "summarise reviews rr = Inr s" and "snapshot_consistent reviews rr"
  shows "at_most_one_sequence s"
proof -
  have two: "\<And>r r'. r \<in> set reviews \<Longrightarrow> r' \<in> set reviews \<Longrightarrow>
      classified_state (review_state r) \<Longrightarrow> classified_state (review_state r') \<Longrightarrow>
      review_login r \<noteq> None \<Longrightarrow> review_login r = review_login r' \<Longrightarrow>
      review_state r = review_state r'"
    using assms(2) unfolding snapshot_consistent_def by blast
  have req: "\<And>u r. u \<in> set (or_empty (rr_users rr)) \<Longrightarrow> r \<in> set reviews \<Longrightarrow>
      classified_state (review_state r) \<Longrightarrow> review_login r \<noteq> Some (login u)"
    using assms(2) unfolding snapshot_consistent_def by blast
  have la: "list_all2 (\<lambda>r e. review_entry_of r = Inr e)
       (filter (\<lambda>r. review_state r = ''APPROVED'') reviews) (approving s)"
    and lc: "list_all2 (\<lambda>r e. review_entry_of r = Inr e)
       (filter (\<lambda>r. review_state r = ''CHANGES_REQUESTED'') reviews) (changesRequested s)"
    and lp: "list_all2 (\<lambda>r e. review_entry_of r = Inr e)
       (filter (\<lambda>r. review_state r = ''PENDING'') reviews) (pending s)"
    and lu: "requestedUsers s = map requested_user_of (or_empty (rr_users rr))"
    using assms(1) by (simp_all add: summarise_Inr_iff)
  have a: "in_approving s = UserReviewer `
      {l. \<exists>r \<in> set (filter (\<lambda>r. review_state r = ''APPROVED'') reviews). review_login r = Some l}"
    unfolding in_approving_def entries_logins [OF la] by (rule refl)
  have c: "in_changesRequested s = UserReviewer `
      {l. \<exists>r \<in> set (filter (\<lambda>r. review_state r = ''CHANGES_REQUESTED'') reviews).
            review_login r = Some l}"
    unfolding in_changesRequested_def entries_logins [OF lc] by (rule refl)
  have p: "in_pending s = UserReviewer `
      {l. \<exists>r \<in> set (filter (\<lambda>r. review_state r = ''PENDING'') reviews). review_login r = Some l}"
    unfolding in_pending_def entries_logins [OF lp] by (rule refl)
  have u: "in_requestedUsers s = UserReviewer ` login ` set (or_empty (rr_users rr))"
    unfolding in_requestedUsers_def lu by (auto simp add: requested_user_of_def image_iff)
  have ac: "in_approving s \<inter> in_changesRequested s = {}"
    unfolding a c using two by (fastforce simp add: classified_state_def)
  have ap: "in_approving s \<inter> in_pending s = {}"
    unfolding a p using two by (fastforce simp add: classified_state_def)
  have cp: "in_changesRequested s \<inter> in_pending s = {}"
    unfolding c p using two by (fastforce simp add: classified_state_def)
  have au: "in_approving s \<inter> in_requestedUsers s = {}"
    unfolding a u using req by (fastforce simp add: classified_state_def)
  have cu: "in_changesRequested s \<inter> in_requestedUsers s = {}"
    unfolding c u using req by (fastforce simp add: classified_state_def)
  have pu: "in_pending s \<inter> in_requestedUsers s = {}"
    unfolding p u using req by (fastforce simp add: classified_state_def)
  show ?thesis
    unfolding at_most_one_sequence_def
    using ac ap cp au cu pu teams_apart [of s]
    by (simp add: Int_commute Int_Un_distrib)
qed

lemma mixed_summary:
  "summarise mixed_reviews
     \<lparr> rr_users = Some [\<lparr> login = ''frank'' \<rparr>],
       rr_teams = Some [\<lparr> slug = ''core'', team_name = ''Core'' \<rparr>] \<rparr> =
   Inr \<lparr> approving =
           [\<lparr> entry_user = ''alice'', entry_submitted_at = Some ''2024-05-01T10:00:00Z'',
              entry_author_association = ''MEMBER'' \<rparr>],
         changesRequested =
           [\<lparr> entry_user = ''carol'', entry_submitted_at = Some ''2024-05-01T10:00:00Z'',
              entry_author_association = ''MEMBER'' \<rparr>],
         pending =
           [\<lparr> entry_user = ''erin'', entry_submitted_at = Some ''2024-05-01T10:00:00Z'',
              entry_author_association = ''MEMBER'' \<rparr>],
         requestedUsers = [\<lparr> ru_user = ''frank'', ru_type = ''user'' \<rparr>],
         requestedTeams = [\<lparr> rt_team = ''core'', rt_name = ''Core'', rt_type = ''team'' \<rparr>] \<rparr>"
  by (simp add: summarise_def mixed_reviews_def mk_review_def review_entry_of_def or_empty_def
      requested_user_of_def requested_team_of_def)

subsection \<open>Review classification\<close>

text \<open>
  The whole body of \<open>getPRReviews\<close> is one \<^verbatim>\<open>try\<close> whose \<^verbatim>\<open>catch\<close> returns five empty
  lists. So an approving review is in no list when the requested-reviewers fetch fails,
  and when some review in one of the three states has no user.
\<close>

theorem getPRReviews_all_or_nothing_counterexample:
  "githubRequest (pull_reviews half_failed_upstream ''octo'' ''app'' 7) =
     Inr [mk_review ''alice'' ''APPROVED''] \<and>
   review_state (mk_review ''alice'' ''APPROVED'') = ''APPROVED'' \<and>
   getPRReviews half_failed_upstream ''octo'' ''app'' 7 = Inr empty_summary \<and>
   approving empty_summary = [] \<and>
   githubRequest (pull_reviews ghost_review_upstream ''octo'' ''app'' 7) =
     Inr [mk_review ''alice'' ''APPROVED'', ghost_review ''CHANGES_REQUESTED''] \<and>
   githubRequest (pull_requested_reviewers ghost_review_upstream ''octo'' ''app'' 7) =
     Inr \<lparr> rr_users = Some [], rr_teams = Some [] \<rparr> \<and>
   getPRReviews ghost_review_upstream ''octo'' ''app'' 7 = Inr empty_summary"
proof -
  have a: "githubRequest (pull_reviews half_failed_upstream ''octo'' ''app'' 7) =
     Inr [mk_review ''alice'' ''APPROVED'']"
    by (simp add: half_failed_upstream_def githubRequest_ok_json)
  have b: "review_state (mk_review ''alice'' ''APPROVED'') = ''APPROVED''"
    by (simp add: mk_review_def)
  have c: "getPRReviews half_failed_upstream ''octo'' ''app'' 7 = Inr empty_summary"
    by (simp add: getPRReviews_def promise_all2_def half_failed_upstream_def
        githubRequest_ok_json response_ok_def)
  have d: "approving empty_summary = []"
    by (simp add: empty_summary_def)
  have e: "githubRequest (pull_reviews ghost_review_upstream ''octo'' ''app'' 7) =
     Inr [mk_review ''alice'' ''APPROVED'', ghost_review ''CHANGES_REQUESTED'']"
    by (simp add: ghost_review_upstream_def githubRequest_ok_json)
  have f: "githubRequest (pull_requested_reviewers ghost_review_upstream ''octo'' ''app'' 7) =
     Inr \<lparr> rr_users = Some [], rr_teams = Some [] \<rparr>"
    by (simp add: ghost_review_upstream_def quiet_upstream_def githubRequest_ok_json)
  have "summarise [mk_review ''alice'' ''APPROVED'', ghost_review ''CHANGES_REQUESTED'']
      \<lparr> rr_users = Some [], rr_teams = Some [] \<rparr> = Inl TypeError"
    by (simp add: summarise_def mk_review_def ghost_review_def review_entry_of_def)
  then have g: "getPRReviews ghost_review_upstream ''octo'' ''app'' 7 = Inr empty_summary"
    using getPRReviews_success [OF e f] by simp
  show ?thesis
    using a b c d e f g by simp
qed

text \<open>
  Claim C4, as the code has it. When both fetches succeed and every review in state
  \<^verbatim>\<open>APPROVED\<close>, \<^verbatim>\<open>CHANGES_REQUESTED\<close> or \<^verbatim>\<open>PENDING\<close> has a user, \<open>approving\<close>,
  \<open>changesRequested\<close> and \<open>pending\<close> hold, entry by entry and in upstream order, exactly the
  reviews in the state of that name. A review in any other state is in none of the three
  lists: the summary is the one the review list without it gives. When either fetch fails,
  or a review in one of the three states has no user, all five lists are empty.
\<close>

theorem getPRReviews_classifies_when_complete:
  "\<exists>s. getPRReviews up owner repo n = Inr s \<and>
     (\<forall>reviews rr.
        githubRequest (pull_reviews up owner repo n) = Inr reviews \<and>
        githubRequest (pull_requested_reviewers up owner repo n) = Inr rr \<and>
        classified_have_user reviews \<longrightarrow>
          list_all2 (\<lambda>r e. review_entry_of r = Inr e)
            (filter (\<lambda>r. review_state r = ''APPROVED'') reviews) (approving s) \<and>
          list_all2 (\<lambda>r e. review_entry_of r = Inr e)
            (filter (\<lambda>r. review_state r = ''CHANGES_REQUESTED'') reviews) (changesRequested s) \<and>
          list_all2 (\<lambda>r e. review_entry_of r = Inr e)
            (filter (\<lambda>r. review_state r = ''PENDING'') reviews) (pending s)) \<and>
     (\<forall>reviews rr.
        githubRequest (pull_reviews up owner repo n) = Inr reviews \<and>
        githubRequest (pull_requested_reviewers up owner repo n) = Inr rr \<and>
        \<not> classified_have_user reviews \<longrightarrow> s = empty_summary) \<and>
     ((\<exists>e. githubRequest (pull_reviews up owner repo n) = Inl e \<or>
           githubRequest (pull_requested_reviewers up owner repo n) = Inl e) \<longrightarrow>
        s = empty_summary) \<and>
     (\<forall>before r after rr.
        githubRequest (pull_reviews up owner repo n) = Inr (before @ r # after) \<and>
        githubRequest (pull_requested_reviewers up owner repo n) = Inr rr \<and>
        \<not> classified_state (review_state r) \<longrightarrow>
          s = (case summarise (before @ after) rr of Inr x \<Rightarrow> x | Inl e \<Rightarrow> empty_summary))"
proof -
  obtain s where s: "getPRReviews up owner repo n = Inr s"
    using getPRReviews_fulfils by blast
  have complete: "\<forall>reviews rr.
        githubRequest (pull_reviews up owner repo n) = Inr reviews \<and>
        githubRequest (pull_requested_reviewers up owner repo n) = Inr rr \<and>
        classified_have_user reviews \<longrightarrow>
          list_all2 (\<lambda>r e. review_entry_of r = Inr e)
            (filter (\<lambda>r. review_state r = ''APPROVED'') reviews) (approving s) \<and>
          list_all2 (\<lambda>r e. review_entry_of r = Inr e)
            (filter (\<lambda>r. review_state r = ''CHANGES_REQUESTED'') reviews) (changesRequested s) \<and>
          list_all2 (\<lambda>r e. review_entry_of r = Inr e)
            (filter (\<lambda>r. review_state r = ''PENDING'') reviews) (pending s)"
  proof (intro allI impI)
    fix reviews rr
    assume h: "githubRequest (pull_reviews up owner repo n) = Inr reviews \<and>
        githubRequest (pull_requested_reviewers up owner repo n) = Inr rr \<and>
        classified_have_user reviews"
    then have "\<not> (\<exists>e. summarise reviews rr = Inl e)"
      by (simp add: summarise_Inl_iff)
    then obtain x where x: "summarise reviews rr = Inr x"
      by (cases "summarise reviews rr") auto
    have "s = x"
      using s h x getPRReviews_success [of up owner repo n reviews rr] by simp
    then show "list_all2 (\<lambda>r e. review_entry_of r = Inr e)
            (filter (\<lambda>r. review_state r = ''APPROVED'') reviews) (approving s) \<and>
          list_all2 (\<lambda>r e. review_entry_of r = Inr e)
            (filter (\<lambda>r. review_state r = ''CHANGES_REQUESTED'') reviews) (changesRequested s) \<and>
          list_all2 (\<lambda>r e. review_entry_of r = Inr e)
            (filter (\<lambda>r. review_state r = ''PENDING'') reviews) (pending s)"
      using x by (simp add: summarise_Inr_iff)
  qed
  have ghost: "\<forall>reviews rr.
        githubRequest (pull_reviews up owner repo n) = Inr reviews \<and>
        githubRequest (pull_requested_reviewers up owner repo n) = Inr rr \<and>
        \<not> classified_have_user reviews \<longrightarrow> s = empty_summary"
  proof (intro allI impI)
    fix reviews rr
    assume h: "githubRequest (pull_reviews up owner repo n) = Inr reviews \<and>
        githubRequest (pull_requested_reviewers up owner repo n) = Inr rr \<and>
        \<not> classified_have_user reviews"
    then obtain e where "summarise reviews rr = Inl e"
      using summarise_Inl_iff [of reviews rr] by blast
    then show "s = empty_summary"
      using s h getPRReviews_success [of up owner repo n reviews rr] by simp
  qed
  have failed: "(\<exists>e. githubRequest (pull_reviews up owner repo n) = Inl e \<or>
           githubRequest (pull_requested_reviewers up owner repo n) = Inl e) \<longrightarrow>
        s = empty_summary"
    using s getPRReviews_failure [of up owner repo n] by auto
  have other: "\<forall>before r after rr.
        githubRequest (pull_reviews up owner repo n) = Inr (before @ r # after) \<and>
        githubRequest (pull_requested_reviewers up owner repo n) = Inr rr \<and>
        \<not> classified_state (review_state r) \<longrightarrow>
          s = (case summarise (before @ after) rr of Inr x \<Rightarrow> x | Inl e \<Rightarrow> empty_summary)"
  proof (intro allI impI)
    fix before r after rr
    assume h: "githubRequest (pull_reviews up owner repo n) = Inr (before @ r # after) \<and>
        githubRequest (pull_requested_reviewers up owner repo n) = Inr rr \<and>
        \<not> classified_state (review_state r)"
    then have "summarise (before @ r # after) rr = summarise (before @ after) rr"
      by (simp add: summarise_drops_other_states)
    then show "s = (case summarise (before @ after) rr of Inr x \<Rightarrow> x | Inl e \<Rightarrow> empty_summary)"
      using s h getPRReviews_success [of up owner repo n "before @ r # after" rr] by simp
  qed
  show ?thesis
    using s complete ghost failed other by blast
qed

theorem getPRReviews_classifies_when_complete_witness:
  "githubRequest (pull_reviews mixed_upstream ''octo'' ''app'' 7) = Inr mixed_reviews \<and>
   githubRequest (pull_requested_reviewers mixed_upstream ''octo'' ''app'' 7) =
     Inr \<lparr> rr_users = Some [\<lparr> login = ''frank'' \<rparr>],
           rr_teams = Some [\<lparr> slug = ''core'', team_name = ''Core'' \<rparr>] \<rparr> \<and>
   classified_have_user mixed_reviews \<and>
   map review_state mixed_reviews =
     [''APPROVED'', ''COMMENTED'', ''CHANGES_REQUESTED'', ''DISMISSED'', ''PENDING''] \<and>
   (\<exists>s. getPRReviews mixed_upstream ''octo'' ''app'' 7 = Inr s \<and>
      map entry_user (approving s) = [''alice''] \<and>
      map entry_user (changesRequested s) = [''carol''] \<and>
      map entry_user (pending s) = [''erin''])"
proof -
  let ?rr = "\<lparr> rr_users = Some [\<lparr> login = ''frank'' \<rparr>],
       rr_teams = Some [\<lparr> slug = ''core'', team_name = ''Core'' \<rparr>] \<rparr>"
  have h1: "githubRequest (pull_reviews mixed_upstream ''octo'' ''app'' 7) = Inr mixed_reviews"
    by (simp add: mixed_upstream_def githubRequest_ok_json)
  have h2: "githubRequest (pull_requested_reviewers mixed_upstream ''octo'' ''app'' 7) = Inr ?rr"
    by (simp add: mixed_upstream_def githubRequest_ok_json)
  have h3: "classified_have_user mixed_reviews"
    by (simp add: classified_have_user_def mixed_reviews_def mk_review_def)
  have h4: "map review_state mixed_reviews =
     [''APPROVED'', ''COMMENTED'', ''CHANGES_REQUESTED'', ''DISMISSED'', ''PENDING'']"
    by (simp add: mixed_reviews_def mk_review_def)
  obtain s where s: "getPRReviews mixed_upstream ''octo'' ''app'' 7 = Inr s"
    and complete: "\<forall>reviews rr.
        githubRequest (pull_reviews mixed_upstream ''octo'' ''app'' 7) = Inr reviews \<and>
        githubRequest (pull_requested_reviewers mixed_upstream ''octo'' ''app'' 7) = Inr rr \<and>
        classified_have_user reviews \<longrightarrow>
          list_all2 (\<lambda>r e. review_entry_of r = Inr e)
            (filter (\<lambda>r. review_state r = ''APPROVED'') reviews) (approving s) \<and>
          list_all2 (\<lambda>r e. review_entry_of r = Inr e)
            (filter (\<lambda>r. review_state r = ''CHANGES_REQUESTED'') reviews) (changesRequested s) \<and>
          list_all2 (\<lambda>r e. review_entry_of r = Inr e)
            (filter (\<lambda>r. review_state r = ''PENDING'') reviews) (pending s)"
    using getPRReviews_classifies_when_complete [of mixed_upstream "''octo''" "''app''" 7]
    by blast
  have l: "list_all2 (\<lambda>r e. review_entry_of r = Inr e)
            (filter (\<lambda>r. review_state r = ''APPROVED'') mixed_reviews) (approving s) \<and>
          list_all2 (\<lambda>r e. review_entry_of r = Inr e)
            (filter (\<lambda>r. review_state r = ''CHANGES_REQUESTED'') mixed_reviews)
            (changesRequested s) \<and>
          list_all2 (\<lambda>r e. review_entry_of r = Inr e)
            (filter (\<lambda>r. review_state r = ''PENDING'') mixed_reviews) (pending s)"
    using complete h1 h2 h3 by blast
  have m: "map entry_user (approving s) = [''alice''] \<and>
      map entry_user (changesRequested s) = [''carol''] \<and>
      map entry_user (pending s) = [''erin'']"
    using l
    by (auto simp add: mixed_reviews_def mk_review_def review_entry_of_def list_all2_Cons1)
  show ?thesis
    using h1 h2 h3 h4 s m by simp
qed

subsection \<open>The latest comment\<close>

text \<open>
  Claim C3. When both comment fetches succeed, \<open>getLatestPRComment\<close> returns the greatest
  creation timestamp over the issue comments and the review comments together, whichever
  list holds it, and \<^verbatim>\<open>null\<close> when both lists are empty; when either fetch fails it returns
  \<^verbatim>\<open>null\<close>.
\<close>

theorem getLatestPRComment_is_maximum:
  "(githubRequest (issue_comments up owner repo n) = Inr issueComments \<and>
    githubRequest (pull_comments up owner repo n) = Inr reviewComments \<longrightarrow>
      getLatestPRComment up owner repo n =
        Inr (if issueComments = [] \<and> reviewComments = [] then None
             else Some (Max (comment_created_at ` (set issueComments \<union> set reviewComments))))) \<and>
   (githubRequest (issue_comments up owner repo n) = Inl e \<or>
    githubRequest (pull_comments up owner repo n) = Inl e \<longrightarrow>
      getLatestPRComment up owner repo n = Inr None)"
proof (intro conjI impI)
  assume ok: "githubRequest (issue_comments up owner repo n) = Inr issueComments \<and>
    githubRequest (pull_comments up owner repo n) = Inr reviewComments"
  let ?all = "issueComments @ reviewComments"
  have g: "getLatestPRComment up owner repo n =
      (case latest_of ?all of Inr v \<Rightarrow> Inr v | Inl e \<Rightarrow> Inr None)"
    using ok by (simp add: getLatestPRComment_def promise_all2_def)
  show "getLatestPRComment up owner repo n =
        Inr (if issueComments = [] \<and> reviewComments = [] then None
             else Some (Max (comment_created_at ` (set issueComments \<union> set reviewComments))))"
  proof (cases "?all = []")
    case True
    then show ?thesis using g by (simp add: latest_of_def)
  next
    case False
    then have "length (js_sort (newest_first comment_created_at) ?all) \<noteq> 0"
      by (simp add: js_sort_length)
    then obtain c cs where cs: "js_sort (newest_first comment_created_at) ?all = c # cs"
      by (cases "js_sort (newest_first comment_created_at) ?all") auto
    have "comment_created_at c = Max (comment_created_at ` set ?all)"
      using cs by (rule js_sort_head_is_Max)
    then show ?thesis
      using g False cs by (simp add: latest_of_def)
  qed
next
  assume "githubRequest (issue_comments up owner repo n) = Inl e \<or>
    githubRequest (pull_comments up owner repo n) = Inl e"
  then show "getLatestPRComment up owner repo n = Inr None"
    by (auto simp add: getLatestPRComment_def promise_all2_def split: sum.split)
qed

theorem getLatestPRComment_is_maximum_witness:
  "githubRequest (issue_comments comments_upstream ''octo'' ''app'' 1)
     = Inr [mk_comment 1 1714557600000, mk_comment 3 1714730400000] \<and>
   githubRequest (pull_comments comments_upstream ''octo'' ''app'' 1)
     = Inr [mk_comment 2 1714644000000] \<and>
   getLatestPRComment comments_upstream ''octo'' ''app'' 1 = Inr (Some 1714730400000) \<and>
   githubRequest (pull_comments comments_upstream ''octo'' ''app'' 2)
     = Inl (GitHubApiError 404 ''Not Found'' ''no such repository'') \<and>
   getLatestPRComment comments_upstream ''octo'' ''app'' 2 = Inr None"
proof -
  have h1: "githubRequest (issue_comments comments_upstream ''octo'' ''app'' 1)
     = Inr [mk_comment 1 1714557600000, mk_comment 3 1714730400000]"
    by (simp add: comments_upstream_def githubRequest_ok_json)
  have h2: "githubRequest (pull_comments comments_upstream ''octo'' ''app'' 1)
     = Inr [mk_comment 2 1714644000000]"
    by (simp add: comments_upstream_def githubRequest_ok_json)
  have h3: "githubRequest (pull_comments comments_upstream ''octo'' ''app'' 2)
     = Inl (GitHubApiError 404 ''Not Found'' ''no such repository'')"
    by (simp add: comments_upstream_def not_found_def response_ok_def)
  have a: "getLatestPRComment comments_upstream ''octo'' ''app'' 1 = Inr (Some 1714730400000)"
    using getLatestPRComment_is_maximum
      [of comments_upstream "''octo''" "''app''" 1
          "[mk_comment 1 1714557600000, mk_comment 3 1714730400000]"
          "[mk_comment 2 1714644000000]"] h1 h2
    by (simp add: mk_comment_def)
  have b: "getLatestPRComment comments_upstream ''octo'' ''app'' 2 = Inr None"
    using getLatestPRComment_is_maximum
      [of comments_upstream "''octo''" "''app''" 2 _ _
          "GitHubApiError 404 ''Not Found'' ''no such repository''"] h3
    by simp
  show ?thesis using h1 h2 h3 a b by simp
qed

subsection \<open>One sequence per reviewer\<close>

text \<open>
  The review list is the history of the pull request and the requested reviewers are its
  present state, and \<open>getPRReviews\<close> maps each on its own. A user who approved and whose
  review was requested again is in both replies, and so in both \<open>approving\<close> and
  \<open>requestedUsers\<close>.
\<close>

theorem getPRReviews_rerequested_counterexample:
  "getPRReviews rerequested_upstream ''octo'' ''app'' 7 = Inr rerequested_summary \<and>
   UserReviewer ''alice'' \<in> in_approving rerequested_summary \<inter> in_requestedUsers rerequested_summary \<and>
   \<not> at_most_one_sequence rerequested_summary"
proof -
  have "getPRReviews rerequested_upstream ''octo'' ''app'' 7 = Inr rerequested_summary"
    by (simp add: getPRReviews_def promise_all2_def rerequested_upstream_def quiet_upstream_def
        githubRequest_ok_json summarise_def mk_review_def review_entry_of_def
        requested_user_of_def or_empty_def rerequested_summary_def)
  moreover have m: "UserReviewer ''alice'' \<in> in_approving rerequested_summary \<inter> in_requestedUsers rerequested_summary"
    by (simp add: in_approving_def in_requestedUsers_def rerequested_summary_def)
  moreover have "\<not> at_most_one_sequence rerequested_summary"
    using m unfolding at_most_one_sequence_def by blast
  ultimately show ?thesis by simp
qed

text \<open>
  Claim C1, as the code has it. \<open>getPRReviews\<close> removes nobody from any sequence. A team
  is never in one of the four user sequences. A reviewer is in at most one of the five
  sequences whenever the two upstream replies are consistent in that way themselves: no
  login has reviews in two different states among \<^verbatim>\<open>APPROVED\<close>, \<^verbatim>\<open>CHANGES_REQUESTED\<close> and
  \<^verbatim>\<open>PENDING\<close>, and no requested user has a review in one of these states. When a fetch
  fails all five sequences are empty.
\<close>

text \<open>
  Claim C1, as the code has it. \<open>getPRReviews\<close> removes nobody from any sequence. A team
  is never in one of the four user sequences. A reviewer is in at most one of the five
  sequences whenever the two upstream replies are consistent in that way themselves: no
  login has reviews in two different states among \<^verbatim>\<open>APPROVED\<close>, \<^verbatim>\<open>CHANGES_REQUESTED\<close> and
  \<^verbatim>\<open>PENDING\<close>, and no requested user has a review in one of these states. When a fetch
  fails all five sequences are empty.
\<close>

theorem getPRReviews_sequences_follow_snapshot:
  "\<exists>s. getPRReviews up owner repo n = Inr s \<and>
     in_requestedTeams s \<inter>
       (in_approving s \<union> in_changesRequested s \<union> in_pending s \<union> in_requestedUsers s) = {} \<and>
     (\<forall>reviews rr.
        githubRequest (pull_reviews up owner repo n) = Inr reviews \<longrightarrow>
        githubRequest (pull_requested_reviewers up owner repo n) = Inr rr \<longrightarrow>
        snapshot_consistent reviews rr \<longrightarrow> at_most_one_sequence s) \<and>
     ((\<exists>e. githubRequest (pull_reviews up owner repo n) = Inl e \<or>
           githubRequest (pull_requested_reviewers up owner repo n) = Inl e) \<longrightarrow>
        s = empty_summary \<and> at_most_one_sequence s)"
proof -
  obtain s where s: "getPRReviews up owner repo n = Inr s"
    using getPRReviews_fulfils by blast
  have consistent: "\<forall>reviews rr.
        githubRequest (pull_reviews up owner repo n) = Inr reviews \<longrightarrow>
        githubRequest (pull_requested_reviewers up owner repo n) = Inr rr \<longrightarrow>
        snapshot_consistent reviews rr \<longrightarrow> at_most_one_sequence s"
  proof (intro allI impI)
    fix reviews rr
    assume h1: "githubRequest (pull_reviews up owner repo n) = Inr reviews"
      and h2: "githubRequest (pull_requested_reviewers up owner repo n) = Inr rr"
      and h3: "snapshot_consistent reviews rr"
    have eq: "s = (case summarise reviews rr of Inr x \<Rightarrow> x | Inl e \<Rightarrow> empty_summary)"
      using s getPRReviews_success [OF h1 h2] by simp
    show "at_most_one_sequence s"
    proof (cases "summarise reviews rr")
      case (Inl e)
      then show ?thesis
        using eq at_most_one_sequence_empty by simp
    next
      case (Inr x)
      then show ?thesis
        using eq summarise_consistent [OF Inr h3] by simp
    qed
  qed
  have failed: "(\<exists>e. githubRequest (pull_reviews up owner repo n) = Inl e \<or>
           githubRequest (pull_requested_reviewers up owner repo n) = Inl e) \<longrightarrow>
        s = empty_summary \<and> at_most_one_sequence s"
    using s getPRReviews_failure [of up owner repo n] at_most_one_sequence_empty by auto
  show ?thesis
    using s teams_apart [of s] consistent failed by blast
qed

theorem getPRReviews_sequences_follow_snapshot_witness:
  "snapshot_consistent mixed_reviews
     \<lparr> rr_users = Some [\<lparr> login = ''frank'' \<rparr>],
       rr_teams = Some [\<lparr> slug = ''core'', team_name = ''Core'' \<rparr>] \<rparr> \<and>
   (\<exists>s. getPRReviews mixed_upstream ''octo'' ''app'' 7 = Inr s \<and>
        in_approving s = {UserReviewer ''alice''} \<and>
        in_requestedUsers s = {UserReviewer ''frank''} \<and>
        in_requestedTeams s = {TeamReviewer ''core''} \<and>
        at_most_one_sequence s)"
proof -
  let ?rr = "\<lparr> rr_users = Some [\<lparr> login = ''frank'' \<rparr>],
       rr_teams = Some [\<lparr> slug = ''core'', team_name = ''Core'' \<rparr>] \<rparr>"
  have h1: "githubRequest (pull_reviews mixed_upstream ''octo'' ''app'' 7) = Inr mixed_reviews"
    by (simp add: mixed_upstream_def githubRequest_ok_json)
  have h2: "githubRequest (pull_requested_reviewers mixed_upstream ''octo'' ''app'' 7) = Inr ?rr"
    by (simp add: mixed_upstream_def githubRequest_ok_json)
  have h3: "snapshot_consistent mixed_reviews ?rr"
    by (simp add: snapshot_consistent_def mixed_reviews_def mk_review_def classified_state_def
        or_empty_def review_login_def)
  obtain s where s: "getPRReviews mixed_upstream ''octo'' ''app'' 7 = Inr s"
    and one: "at_most_one_sequence s"
    using getPRReviews_sequences_follow_snapshot [of mixed_upstream "''octo''" "''app''" 7]
      h1 h2 h3 by blast
  have v: "s = (case summarise mixed_reviews ?rr of Inr x \<Rightarrow> x | Inl e \<Rightarrow> empty_summary)"
    using s getPRReviews_success [OF h1 h2] by simp
  have m: "in_approving s = {UserReviewer ''alice''} \<and>
        in_requestedUsers s = {UserReviewer ''frank''} \<and>
        in_requestedTeams s = {TeamReviewer ''core''}"
    unfolding v mixed_summary
    by (simp add: in_approving_def in_requestedUsers_def in_requestedTeams_def)
  show ?thesis
    using h3 s m one by simp
qed

subsection \<open>Standalone workflow runs\<close>

lemma for_runs_eq:
  "for_runs cutoff repo runs allRuns =
     allRuns @ map (standalone_run_of repo) (filter (passes_filters cutoff) runs)"
  by (induction runs arbitrary: allRuns) (simp_all add: passes_filters_def)

lemma for_repos_runs_eq:
  "for_repos_runs cfg up cutoff repos allRuns =
     allRuns @ concat (map (repo_standalone cfg up cutoff) repos)"
proof (induction repos arbitrary: allRuns)
  case Nil
  show ?case by simp
next
  case (Cons repo repos)
  show ?case
    by (simp add: Cons.IH repo_standalone_def fetched_runs_def for_runs_eq
        split: prod.split sum.split)
qed

lemma getUserWorkflows_eq:
  "getUserWorkflows cfg clk up =
     Inr (js_sort (newest_first sr_created_at)
            (concat (map (repo_standalone cfg up (threeDaysAgo clk)) (repositories cfg))))"
  by (simp add: getUserWorkflows_def for_repos_runs_eq)

lemma getUserWorkflows_set:
  assumes "getUserWorkflows cfg clk up = Inr out"
  shows "set out = (\<Union>repo \<in> set (repositories cfg). set (repo_standalone cfg up (threeDaysAgo clk) repo))"
  using assms by (auto simp add: getUserWorkflows_eq js_sort_set)

lemma repo_standalone_member:
  "x \<in> set (repo_standalone cfg up cutoff repo) \<longleftrightarrow>
     (\<exists>runs run. fetched_runs cfg up repo = Inr runs \<and> run \<in> set runs \<and>
        passes_filters cutoff run \<and> x = standalone_run_of repo run)"
  by (cases "fetched_runs cfg up repo") (auto simp add: repo_standalone_def)

lemma getUserWorkflows_member:
  assumes "getUserWorkflows cfg clk up = Inr out"
  shows "x \<in> set out \<longleftrightarrow>
     (\<exists>repo runs run. repo \<in> set (repositories cfg) \<and> fetched_runs cfg up repo = Inr runs \<and>
        run \<in> set runs \<and> passes_filters (threeDaysAgo clk) run \<and> x = standalone_run_of repo run)"
  unfolding getUserWorkflows_set [OF assms] by (auto simp add: repo_standalone_member)

lemma standalone_run_of_fields:
  "sr_created_at (standalone_run_of repo run) = run_created_at run"
  "sr_head_branch (standalone_run_of repo run) = run_head_branch run"
  "sr_repository (standalone_run_of repo run) = repo"
  "sr_id (standalone_run_of repo run) = run_id run"
  by (simp_all add: standalone_run_of_def)

lemma is_pull_ref_Some: "is_pull_ref (Some b) = startsWith b ''refs/pull/''"
  by (auto simp add: is_pull_ref_def startsWith_def)

lemma split_repo_app: "split_repo ''octo/app'' = (''octo'', ''app'')"
  by (simp add: split_repo_def)

lemma split_repo_lib: "split_repo ''octo/lib'' = (''octo'', ''lib'')"
  by (simp add: split_repo_def)

lemma fetched_runs_app:
  "fetched_runs octocat runs_upstream ''octo/app'' =
     Inr [mk_run 1 four_days_ago (Some ''main'') (Some []),
          mk_run 2 two_days_ago (Some ''main'') (Some []),
          mk_run 3 two_days_ago (Some ''refs/pull/42/merge'') (Some []),
          mk_run 4 two_days_ago None None,
          mk_run 5 two_days_ago (Some ''feature'') (Some [42])]"
  by (simp add: fetched_runs_def split_repo_app runs_upstream_def octocat_def
      githubRequest_ok_json)

lemma getUserWorkflows_example:
  "getUserWorkflows octocat noon runs_upstream =
     Inr [standalone_run_of ''octo/app'' (mk_run 2 two_days_ago (Some ''main'') (Some [])),
          standalone_run_of ''octo/app'' (mk_run 4 two_days_ago None None)]"
  by (simp add: getUserWorkflows_def octocat_def split_repo_app split_repo_lib runs_upstream_def
      githubRequest_ok_json not_found_def response_ok_def threeDaysAgo_def noon_def msPerDay_def
      mk_run_def four_days_ago_def two_days_ago_def is_pull_ref_def startsWith_def or_empty_def
      js_sort_def newest_first_def standalone_run_of_def)

lemma getUserWorkflows_fulfils: "\<exists>out. getUserWorkflows cfg clk up = Inr out"
  by (simp add: getUserWorkflows_def)

lemma getUserWorkflows_retains:
  assumes "getUserWorkflows cfg clk up = Inr out"
    and "repo \<in> set (repositories cfg)"
    and "fetched_runs cfg up repo = Inr runs"
    and "run \<in> set runs"
    and "\<not> run_created_at run < threeDaysAgo clk"
    and "\<not> is_pull_ref (run_head_branch run)"
    and "or_empty (run_pull_requests run) = []"
  shows "standalone_run_of repo run \<in> set out"
  unfolding getUserWorkflows_member [OF assms(1)]
  using assms(2-7) by (auto simp add: passes_filters_def)

lemma getUserWorkflows_output_passed:
  assumes "getUserWorkflows cfg clk up = Inr out" and "x \<in> set out"
  shows "\<not> sr_created_at x < threeDaysAgo clk \<and> \<not> is_pull_ref (sr_head_branch x)"
  using assms(2) unfolding getUserWorkflows_member [OF assms(1)]
  by (auto simp add: passes_filters_def standalone_run_of_fields)

lemma for_runs_drops:
  assumes "\<not> passes_filters cutoff run"
  shows "for_runs cutoff repo (before @ run # after) allRuns =
         for_runs cutoff repo (before @ after) allRuns"
  using assms by (simp add: for_runs_eq)

text \<open>
  Claim C2. \<open>getUserWorkflows\<close> leaves out every run created before \<open>threeDaysAgo\<close>: no
  record of the result has an older creation time, and the loop's result is the same with
  or without such a run in the upstream list. A run that is not older, is not on a
  pull-request ref and has no associated PRs is in the result. When the zone's offset
  changes by less than a day inside the window (in particular in a zone with a fixed
  offset, where \<open>threeDaysAgo\<close> is \<open>now - 3 * msPerDay\<close>), a run created four days ago or
  earlier is left out and a run created two days ago or later is kept, the other two
  filters permitting.
\<close>

theorem getUserWorkflows_three_day_window:
  "\<exists>out. getUserWorkflows cfg clk up = Inr out \<and>
     (\<forall>x \<in> set out. \<not> sr_created_at x < threeDaysAgo clk) \<and>
     (\<forall>repo before run after allRuns.
        run_created_at run < threeDaysAgo clk \<longrightarrow>
          for_runs (threeDaysAgo clk) repo (before @ run # after) allRuns =
          for_runs (threeDaysAgo clk) repo (before @ after) allRuns) \<and>
     (\<forall>repo \<in> set (repositories cfg). \<forall>runs. fetched_runs cfg up repo = Inr runs \<longrightarrow>
        (\<forall>run \<in> set runs.
           \<not> run_created_at run < threeDaysAgo clk \<and> \<not> is_pull_ref (run_head_branch run) \<and>
           or_empty (run_pull_requests run) = [] \<longrightarrow>
             standalone_run_of repo run \<in> set out)) \<and>
     (\<bar>tza_now clk - tza_then clk\<bar> < msPerDay \<longrightarrow>
        (\<forall>x \<in> set out. now clk - 4 * msPerDay < sr_created_at x) \<and>
        (\<forall>repo \<in> set (repositories cfg). \<forall>runs. fetched_runs cfg up repo = Inr runs \<longrightarrow>
           (\<forall>run \<in> set runs.
              now clk - 2 * msPerDay \<le> run_created_at run \<and>
              \<not> is_pull_ref (run_head_branch run) \<and> or_empty (run_pull_requests run) = [] \<longrightarrow>
                standalone_run_of repo run \<in> set out)))"
proof -
  obtain out where out: "getUserWorkflows cfg clk up = Inr out"
    using getUserWorkflows_fulfils by blast
  have old: "\<forall>x \<in> set out. \<not> sr_created_at x < threeDaysAgo clk"
    using getUserWorkflows_output_passed [OF out] by blast
  have drop: "\<forall>repo before run after allRuns.
        run_created_at run < threeDaysAgo clk \<longrightarrow>
          for_runs (threeDaysAgo clk) repo (before @ run # after) allRuns =
          for_runs (threeDaysAgo clk) repo (before @ after) allRuns"
    by (simp add: for_runs_drops passes_filters_def)
  have keep: "\<forall>repo \<in> set (repositories cfg). \<forall>runs. fetched_runs cfg up repo = Inr runs \<longrightarrow>
        (\<forall>run \<in> set runs.
           \<not> run_created_at run < threeDaysAgo clk \<and> \<not> is_pull_ref (run_head_branch run) \<and>
           or_empty (run_pull_requests run) = [] \<longrightarrow>
             standalone_run_of repo run \<in> set out)"
    using getUserWorkflows_retains [OF out] by blast
  have days: "\<bar>tza_now clk - tza_then clk\<bar> < msPerDay \<longrightarrow>
        (\<forall>x \<in> set out. now clk - 4 * msPerDay < sr_created_at x) \<and>
        (\<forall>repo \<in> set (repositories cfg). \<forall>runs. fetched_runs cfg up repo = Inr runs \<longrightarrow>
           (\<forall>run \<in> set runs.
              now clk - 2 * msPerDay \<le> run_created_at run \<and>
              \<not> is_pull_ref (run_head_branch run) \<and> or_empty (run_pull_requests run) = [] \<longrightarrow>
                standalone_run_of repo run \<in> set out))"
  proof
    assume z: "\<bar>tza_now clk - tza_then clk\<bar> < msPerDay"
    have lo: "now clk - 4 * msPerDay < threeDaysAgo clk"
      using z by (simp add: threeDaysAgo_def)
    have hi: "threeDaysAgo clk < now clk - 2 * msPerDay"
      using z by (simp add: threeDaysAgo_def)
    have a: "\<forall>x \<in> set out. now clk - 4 * msPerDay < sr_created_at x"
      using old lo by fastforce
    have b: "\<forall>repo \<in> set (repositories cfg). \<forall>runs. fetched_runs cfg up repo = Inr runs \<longrightarrow>
           (\<forall>run \<in> set runs.
              now clk - 2 * msPerDay \<le> run_created_at run \<and>
              \<not> is_pull_ref (run_head_branch run) \<and> or_empty (run_pull_requests run) = [] \<longrightarrow>
                standalone_run_of repo run \<in> set out)"
      using keep hi by fastforce
    show "(\<forall>x \<in> set out. now clk - 4 * msPerDay < sr_created_at x) \<and>
        (\<forall>repo \<in> set (repositories cfg). \<forall>runs. fetched_runs cfg up repo = Inr runs \<longrightarrow>
           (\<forall>run \<in> set runs.
              now clk - 2 * msPerDay \<le> run_created_at run \<and>
              \<not> is_pull_ref (run_head_branch run) \<and> or_empty (run_pull_requests run) = [] \<longrightarrow>
                standalone_run_of repo run \<in> set out))"
      using a b by (rule conjI)
  qed
  show ?thesis
    using out old drop keep days by blast
qed

theorem getUserWorkflows_three_day_window_witness:
  "\<bar>tza_now noon - tza_then noon\<bar> < msPerDay \<and>
   four_days_ago = now noon - 4 * msPerDay \<and>
   two_days_ago = now noon - 2 * msPerDay \<and>
   ''octo/app'' \<in> set (repositories octocat) \<and>
   (\<exists>runs. fetched_runs octocat runs_upstream ''octo/app'' = Inr runs \<and>
      mk_run 1 four_days_ago (Some ''main'') (Some []) \<in> set runs \<and>
      mk_run 2 two_days_ago (Some ''main'') (Some []) \<in> set runs) \<and>
   (\<exists>out. getUserWorkflows octocat noon runs_upstream = Inr out \<and>
      standalone_run_of ''octo/app'' (mk_run 1 four_days_ago (Some ''main'') (Some [])) \<notin> set out \<and>
      standalone_run_of ''octo/app'' (mk_run 2 two_days_ago (Some ''main'') (Some [])) \<in> set out)"
proof -
  let ?old = "mk_run 1 four_days_ago (Some ''main'') (Some [])"
  let ?new = "mk_run 2 two_days_ago (Some ''main'') (Some [])"
  have z: "\<bar>tza_now noon - tza_then noon\<bar> < msPerDay"
    by (simp add: noon_def msPerDay_def)
  have d4: "four_days_ago = now noon - 4 * msPerDay"
    by (simp add: noon_def msPerDay_def four_days_ago_def)
  have d2: "two_days_ago = now noon - 2 * msPerDay"
    by (simp add: noon_def msPerDay_def two_days_ago_def)
  have r: "''octo/app'' \<in> set (repositories octocat)"
    by (simp add: octocat_def)
  have m1: "?old \<in> set [mk_run 1 four_days_ago (Some ''main'') (Some []),
          mk_run 2 two_days_ago (Some ''main'') (Some []),
          mk_run 3 two_days_ago (Some ''refs/pull/42/merge'') (Some []),
          mk_run 4 two_days_ago None None,
          mk_run 5 two_days_ago (Some ''feature'') (Some [42])]"
    by simp
  have m2: "?new \<in> set [mk_run 1 four_days_ago (Some ''main'') (Some []),
          mk_run 2 two_days_ago (Some ''main'') (Some []),
          mk_run 3 two_days_ago (Some ''refs/pull/42/merge'') (Some []),
          mk_run 4 two_days_ago None None,
          mk_run 5 two_days_ago (Some ''feature'') (Some [42])]"
    by simp
  have f2: "now noon - 2 * msPerDay \<le> run_created_at ?new \<and>
      \<not> is_pull_ref (run_head_branch ?new) \<and> or_empty (run_pull_requests ?new) = []"
    by (simp add: d2 [symmetric] mk_run_def is_pull_ref_def startsWith_def or_empty_def)
  have c1: "sr_created_at (standalone_run_of ''octo/app'' ?old) = now noon - 4 * msPerDay"
    by (simp add: standalone_run_of_fields mk_run_def d4)
  obtain out where out: "getUserWorkflows octocat noon runs_upstream = Inr out"
    and lo: "\<forall>x \<in> set out. now noon - 4 * msPerDay < sr_created_at x"
    and keep: "\<forall>repo \<in> set (repositories octocat). \<forall>runs.
        fetched_runs octocat runs_upstream repo = Inr runs \<longrightarrow>
           (\<forall>run \<in> set runs.
              now noon - 2 * msPerDay \<le> run_created_at run \<and>
              \<not> is_pull_ref (run_head_branch run) \<and> or_empty (run_pull_requests run) = [] \<longrightarrow>
                standalone_run_of repo run \<in> set out)"
    using getUserWorkflows_three_day_window [of octocat noon runs_upstream] z by blast
  have gone: "standalone_run_of ''octo/app'' ?old \<notin> set out"
    using lo c1 by fastforce
  have there: "standalone_run_of ''octo/app'' ?new \<in> set out"
    using keep r fetched_runs_app m2 f2 by blast
  show ?thesis
    using z d4 d2 r fetched_runs_app m1 m2 out gone there by blast
qed

text \<open>
  Claim C5. A run whose head branch starts with \<^verbatim>\<open>refs/pull/\<close> is left out of the
  standalone result, whatever its associated PRs (none included): no record of the result
  carries such a head branch, and the loop's result is the same with or without the run
  in the upstream list.
\<close>

theorem getUserWorkflows_drops_pull_refs:
  "\<exists>out. getUserWorkflows cfg clk up = Inr out \<and>
     (\<forall>x \<in> set out. \<forall>b. sr_head_branch x = Some b \<longrightarrow> \<not> startsWith b ''refs/pull/'') \<and>
     (\<forall>repo before run after allRuns b.
        run_head_branch run = Some b \<and> startsWith b ''refs/pull/'' \<longrightarrow>
          for_runs (threeDaysAgo clk) repo (before @ run # after) allRuns =
          for_runs (threeDaysAgo clk) repo (before @ after) allRuns)"
proof -
  obtain out where out: "getUserWorkflows cfg clk up = Inr out"
    using getUserWorkflows_fulfils by blast
  have a: "\<forall>x \<in> set out. \<forall>b. sr_head_branch x = Some b \<longrightarrow> \<not> startsWith b ''refs/pull/''"
  proof (intro ballI allI impI)
    fix x b
    assume "x \<in> set out" and b: "sr_head_branch x = Some b"
    then have "\<not> is_pull_ref (sr_head_branch x)"
      using getUserWorkflows_output_passed [OF out] by blast
    then show "\<not> startsWith b ''refs/pull/''"
      by (simp add: b is_pull_ref_Some)
  qed
  have d: "\<forall>repo before run after allRuns b.
        run_head_branch run = Some b \<and> startsWith b ''refs/pull/'' \<longrightarrow>
          for_runs (threeDaysAgo clk) repo (before @ run # after) allRuns =
          for_runs (threeDaysAgo clk) repo (before @ after) allRuns"
    by (simp add: for_runs_drops passes_filters_def is_pull_ref_Some)
  show ?thesis
    using out a d by blast
qed

theorem getUserWorkflows_drops_pull_refs_witness:
  "startsWith ''refs/pull/42/merge'' ''refs/pull/'' \<and>
   or_empty (run_pull_requests (mk_run 3 two_days_ago (Some ''refs/pull/42/merge'') (Some []))) = [] \<and>
   \<not> run_created_at (mk_run 3 two_days_ago (Some ''refs/pull/42/merge'') (Some [])) < threeDaysAgo noon \<and>
   (\<exists>runs. fetched_runs octocat runs_upstream ''octo/app'' = Inr runs \<and>
      mk_run 3 two_days_ago (Some ''refs/pull/42/merge'') (Some []) \<in> set runs) \<and>
   (\<exists>out. getUserWorkflows octocat noon runs_upstream = Inr out \<and>
      standalone_run_of ''octo/app'' (mk_run 3 two_days_ago (Some ''refs/pull/42/merge'') (Some []))
        \<notin> set out)"
proof -
  let ?run = "mk_run 3 two_days_ago (Some ''refs/pull/42/merge'') (Some [])"
  have s: "startsWith ''refs/pull/42/merge'' ''refs/pull/''"
    by (simp add: startsWith_def)
  have e: "or_empty (run_pull_requests ?run) = []"
    by (simp add: mk_run_def or_empty_def)
  have t: "\<not> run_created_at ?run < threeDaysAgo noon"
    by (simp add: mk_run_def two_days_ago_def threeDaysAgo_def noon_def msPerDay_def)
  have m: "?run \<in> set [mk_run 1 four_days_ago (Some ''main'') (Some []),
          mk_run 2 two_days_ago (Some ''main'') (Some []),
          mk_run 3 two_days_ago (Some ''refs/pull/42/merge'') (Some []),
          mk_run 4 two_days_ago None None,
          mk_run 5 two_days_ago (Some ''feature'') (Some [42])]"
    by simp
  have b: "sr_head_branch (standalone_run_of ''octo/app'' ?run) = Some ''refs/pull/42/merge''"
    by (simp add: standalone_run_of_fields mk_run_def)
  obtain out where out: "getUserWorkflows octocat noon runs_upstream = Inr out"
    and no: "\<forall>x \<in> set out. \<forall>b. sr_head_branch x = Some b \<longrightarrow> \<not> startsWith b ''refs/pull/''"
    using getUserWorkflows_drops_pull_refs [of octocat noon runs_upstream] by blast
  have gone: "standalone_run_of ''octo/app'' ?run \<notin> set out"
    using no b s by blast
  show ?thesis
    using s e t fetched_runs_app m out gone by blast
qed

text \<open>
  Claim C10. A \<^verbatim>\<open>null\<close> or absent \<^verbatim>\<open>head_branch\<close> does not make \<open>getUserWorkflows\<close> fail and
  does not count as a pull-request ref: such a run, when it is inside the window and has
  no associated PRs, is in the result, with its \<^verbatim>\<open>null\<close> head branch passed through.
\<close>

theorem getUserWorkflows_keeps_null_head_branch:
  "\<not> is_pull_ref None \<and>
   (\<exists>out. getUserWorkflows cfg clk up = Inr out \<and>
     (\<forall>repo \<in> set (repositories cfg). \<forall>runs. fetched_runs cfg up repo = Inr runs \<longrightarrow>
        (\<forall>run \<in> set runs.
           run_head_branch run = None \<and> \<not> run_created_at run < threeDaysAgo clk \<and>
           or_empty (run_pull_requests run) = [] \<longrightarrow>
             (\<exists>x \<in> set out. x = standalone_run_of repo run \<and> sr_head_branch x = None \<and>
                sr_repository x = repo \<and> sr_id x = run_id run))))"
proof -
  have n: "\<not> is_pull_ref None"
    by (simp add: is_pull_ref_def)
  obtain out where out: "getUserWorkflows cfg clk up = Inr out"
    using getUserWorkflows_fulfils by blast
  have k: "\<forall>repo \<in> set (repositories cfg). \<forall>runs. fetched_runs cfg up repo = Inr runs \<longrightarrow>
        (\<forall>run \<in> set runs.
           run_head_branch run = None \<and> \<not> run_created_at run < threeDaysAgo clk \<and>
           or_empty (run_pull_requests run) = [] \<longrightarrow>
             (\<exists>x \<in> set out. x = standalone_run_of repo run \<and> sr_head_branch x = None \<and>
                sr_repository x = repo \<and> sr_id x = run_id run))"
  proof (intro ballI allI impI)
    fix repo runs run
    assume repo: "repo \<in> set (repositories cfg)"
      and runs: "fetched_runs cfg up repo = Inr runs"
      and run: "run \<in> set runs"
      and h: "run_head_branch run = None \<and> \<not> run_created_at run < threeDaysAgo clk \<and>
           or_empty (run_pull_requests run) = []"
    have "\<not> is_pull_ref (run_head_branch run)"
      using h n by simp
    then have "standalone_run_of repo run \<in> set out"
      using getUserWorkflows_retains [OF out repo runs run] h by blast
    then show "\<exists>x \<in> set out. x = standalone_run_of repo run \<and> sr_head_branch x = None \<and>
                sr_repository x = repo \<and> sr_id x = run_id run"
      using h by (simp add: standalone_run_of_fields)
  qed
  show ?thesis
    using n out k by blast
qed

theorem getUserWorkflows_keeps_null_head_branch_witness:
  "''octo/app'' \<in> set (repositories octocat) \<and>
   run_head_branch (mk_run 4 two_days_ago None None) = None \<and>
   \<not> run_created_at (mk_run 4 two_days_ago None None) < threeDaysAgo noon \<and>
   or_empty (run_pull_requests (mk_run 4 two_days_ago None None)) = [] \<and>
   (\<exists>runs. fetched_runs octocat runs_upstream ''octo/app'' = Inr runs \<and>
      mk_run 4 two_days_ago None None \<in> set runs) \<and>
   (\<exists>out. getUserWorkflows octocat noon runs_upstream = Inr out \<and>
      (\<exists>x. x \<in> set out \<and> sr_id x = 4 \<and> sr_repository x = ''octo/app'' \<and>
           sr_head_branch x = None))"
proof -
  let ?run = "mk_run 4 two_days_ago None None"
  have r: "''octo/app'' \<in> set (repositories octocat)"
    by (simp add: octocat_def)
  have h: "run_head_branch ?run = None \<and> \<not> run_created_at ?run < threeDaysAgo noon \<and>
      or_empty (run_pull_requests ?run) = []"
    by (simp add: mk_run_def two_days_ago_def threeDaysAgo_def noon_def msPerDay_def or_empty_def)
  have i: "run_id ?run = 4"
    by (simp add: mk_run_def)
  have m: "?run \<in> set [mk_run 1 four_days_ago (Some ''main'') (Some []),
          mk_run 2 two_days_ago (Some ''main'') (Some []),
          mk_run 3 two_days_ago (Some ''refs/pull/42/merge'') (Some []),
          mk_run 4 two_days_ago None None,
          mk_run 5 two_days_ago (Some ''feature'') (Some [42])]"
    by simp
  obtain out where out: "getUserWorkflows octocat noon runs_upstream = Inr out"
    and k: "\<forall>repo \<in> set (repositories octocat). \<forall>runs.
        fetched_runs octocat runs_upstream repo = Inr runs \<longrightarrow>
        (\<forall>run \<in> set runs.
           run_head_branch run = None \<and> \<not> run_created_at run < threeDaysAgo noon \<and>
           or_empty (run_pull_requests run) = [] \<longrightarrow>
             (\<exists>x \<in> set out. x = standalone_run_of repo run \<and> sr_head_branch x = None \<and>
                sr_repository x = repo \<and> sr_id x = run_id run))"
    using getUserWorkflows_keeps_null_head_branch [of octocat noon runs_upstream] by blast
  have "\<exists>x \<in> set out. x = standalone_run_of ''octo/app'' ?run \<and> sr_head_branch x = None \<and>
                sr_repository x = ''octo/app'' \<and> sr_id x = run_id ?run"
    using k r fetched_runs_app m h by blast
  then have x: "\<exists>x. x \<in> set out \<and> sr_id x = 4 \<and> sr_repository x = ''octo/app'' \<and>
           sr_head_branch x = None"
    using i by auto
  show ?thesis
    using r h fetched_runs_app m out x by blast
qed

subsection \<open>The pull-request route\<close>

lemma getLatestPRComment_fulfils: "\<exists>t. getLatestPRComment up owner repo n = Inr t"
  by (simp add: getLatestPRComment_def split: sum.split prod.split)

lemma getPRWorkflows_fulfils: "\<exists>ws. getPRWorkflows up owner repo n headSha = Inr ws"
  by (simp add: getPRWorkflows_def split: sum.split)

lemma promise_all3_helpers:
  "promise_all3 (getPRReviews up owner repoName n) (getLatestPRComment up owner repoName n)
       (getPRWorkflows up owner repoName n headSha) =
     Inr (case getPRReviews up owner repoName n of Inr s \<Rightarrow> s | Inl e \<Rightarrow> empty_summary,
          case getLatestPRComment up owner repoName n of Inr t \<Rightarrow> t | Inl e \<Rightarrow> None,
          case getPRWorkflows up owner repoName n headSha of Inr ws \<Rightarrow> ws | Inl e \<Rightarrow> [])"
proof -
  obtain s where s: "getPRReviews up owner repoName n = Inr s"
    using getPRReviews_fulfils by blast
  obtain t where t: "getLatestPRComment up owner repoName n = Inr t"
    using getLatestPRComment_fulfils by blast
  obtain ws where ws: "getPRWorkflows up owner repoName n headSha = Inr ws"
    using getPRWorkflows_fulfils by blast
  show ?thesis
    by (simp add: s t ws promise_all3_def promise_all2_def)
qed

lemma pr_record_of_Inr:
  assumes "pull_user pr = Some u"
  shows "\<exists>x. pr_record_of repo pr reviews latestComment workflows = Inr x"
  using assms by (simp add: pr_record_of_def)

lemma aggregated_Inl_iff: "(\<exists>e. aggregated up repo pr = Inl e) \<longleftrightarrow> pull_user pr = None"
  by (cases "split_repo repo") (simp add: aggregated_def pr_record_of_def split: option.split)

lemma aggregated_fields:
  assumes "aggregated up repo pr = Inr x"
  shows "pr_repository x = repo" and "pr_number x = pull_number pr" and "pr_id x = pull_id pr"
    and "pr_created_at x = pull_created_at pr"
    and "map_option login (pull_user pr) = Some (pr_author x)"
  using assms
  by (cases "split_repo repo"; cases "pull_user pr";
      auto simp add: aggregated_def pr_record_of_def)+

lemma aggregated_member:
  assumes "list_all2 (\<lambda>pr x. aggregated up repo pr = Inr x) prs xs"
  shows "x \<in> set xs \<longleftrightarrow> (\<exists>pr \<in> set prs. aggregated up repo pr = Inr x)"
  using assms by (induction rule: list_all2_induct) auto

lemma for_userPRs_no_throw:
  assumes "\<forall>pr \<in> set prs. pull_user pr \<noteq> None"
  shows "fst (for_userPRs up repo owner repoName prs allPRs) = None"
  using assms
proof (induction prs arbitrary: allPRs)
  case Nil
  show ?case by simp
next
  case (Cons pr prs)
  obtain u where u: "pull_user pr = Some u"
    using Cons.prems by auto
  obtain x where "pr_record_of repo pr
      (case getPRReviews up owner repoName (pull_number pr) of Inr s \<Rightarrow> s | Inl e \<Rightarrow> empty_summary)
      (case getLatestPRComment up owner repoName (pull_number pr) of Inr t \<Rightarrow> t | Inl e \<Rightarrow> None)
      (case getPRWorkflows up owner repoName (pull_number pr) (sha (pull_head pr)) of
         Inr ws \<Rightarrow> ws | Inl e \<Rightarrow> []) = Inr x"
    using pr_record_of_Inr [OF u] by blast
  then show ?case
    using Cons.IH Cons.prems by (simp add: promise_all3_helpers)
qed

lemma for_userPRs_records:
  assumes "split_repo repo = (owner, repoName)"
    and "list_all2 (\<lambda>pr x. aggregated up repo pr = Inr x) prs xs"
  shows "for_userPRs up repo owner repoName prs allPRs = (None, allPRs @ xs)"
  using assms(2)
proof (induction arbitrary: allPRs rule: list_all2_induct)
  case Nil
  show ?case by simp
next
  case (Cons pr prs x xs)
  have "pr_record_of repo pr
      (case getPRReviews up owner repoName (pull_number pr) of Inr s \<Rightarrow> s | Inl e \<Rightarrow> empty_summary)
      (case getLatestPRComment up owner repoName (pull_number pr) of Inr t \<Rightarrow> t | Inl e \<Rightarrow> None)
      (case getPRWorkflows up owner repoName (pull_number pr) (sha (pull_head pr)) of
         Inr ws \<Rightarrow> ws | Inl e \<Rightarrow> []) = Inr x"
    using Cons.hyps(1) assms(1) by (simp add: aggregated_def)
  then show ?case
    by (simp add: promise_all3_helpers Cons.IH)
qed

lemma for_userPRs_acc:
  "for_userPRs up repo owner repoName prs allPRs =
     (fst (for_userPRs up repo owner repoName prs []),
      allPRs @ snd (for_userPRs up repo owner repoName prs []))"
proof (induction prs arbitrary: allPRs)
  case Nil
  show ?case by simp
next
  case (Cons pr prs)
  show ?case
    using Cons.IH [of "allPRs @ [x]" for x] Cons.IH [of "[x]" for x]
    by (simp add: promise_all3_helpers split: sum.split)
qed

lemma array_filter_sound:
  assumes "array_filter p xs = Inr ys"
  shows "set ys \<subseteq> set xs \<and> (\<forall>x \<in> set xs. \<exists>b. p x = Inr b)"
  using assms by (induction xs arbitrary: ys) (auto split: sum.splits if_splits)

lemma authored_by_user_filter:
  "pulls_have_user prs \<Longrightarrow>
     array_filter (authored_by_user cfg) prs = Inr (filter (own_pull cfg) prs)"
  "\<not> pulls_have_user prs \<Longrightarrow> \<exists>e. array_filter (authored_by_user cfg) prs = Inl e"
proof -
  assume h: "pulls_have_user prs"
  have "\<forall>pr \<in> set prs. \<exists>b. authored_by_user cfg pr = Inr b"
    using h by (auto simp add: pulls_have_user_def authored_by_user_def)
  then have "array_filter (authored_by_user cfg) prs =
      Inr (filter (\<lambda>pr. authored_by_user cfg pr = Inr True) prs)"
    by (rule array_filter_Inr)
  moreover have "filter (\<lambda>pr. authored_by_user cfg pr = Inr True) prs = filter (own_pull cfg) prs"
    by (rule filter_cong) (auto simp add: authored_by_user_def own_pull_def split: option.split)
  ultimately show "array_filter (authored_by_user cfg) prs = Inr (filter (own_pull cfg) prs)"
    by simp
next
  assume "\<not> pulls_have_user prs"
  then obtain pr where "pr \<in> set prs" "authored_by_user cfg pr = Inl TypeError"
    by (auto simp add: pulls_have_user_def authored_by_user_def)
  then show "\<exists>e. array_filter (authored_by_user cfg) prs = Inl e"
    by (rule array_filter_Inl)
qed

lemma own_pull_has_user: "own_pull cfg pr \<Longrightarrow> pull_user pr \<noteq> None"
  by (auto simp add: own_pull_def)

lemma aggregated_own:
  "\<exists>xs. list_all2 (\<lambda>pr x. aggregated up repo pr = Inr x) (filter (own_pull cfg) prs) xs"
proof (induction prs)
  case Nil
  show ?case by simp
next
  case (Cons pr prs)
  show ?case
  proof (cases "own_pull cfg pr")
    case False
    then show ?thesis using Cons.IH by simp
  next
    case True
    then have "\<not> (\<exists>e. aggregated up repo pr = Inl e)"
      using own_pull_has_user unfolding aggregated_Inl_iff by blast
    then obtain x where "aggregated up repo pr = Inr x"
      by (cases "aggregated up repo pr") auto
    then show ?thesis
      using True Cons.IH by (auto simp add: list_all2_Cons1)
  qed
qed

lemma repo_prs_failed:
  assumes "fetched_pulls up repo = Inl e"
  shows "repo_prs cfg up repo = []"
  using assms by (simp add: repo_prs_def prs_try_block_def fetched_pulls_def split: prod.splits)

lemma repo_prs_ghost:
  assumes "fetched_pulls up repo = Inr pulls" and "\<not> pulls_have_user pulls"
  shows "repo_prs cfg up repo = []"
proof -
  obtain e where "array_filter (authored_by_user cfg) pulls = Inl e"
    using authored_by_user_filter(2) [OF assms(2)] by blast
  then show ?thesis
    using assms(1)
    by (simp add: repo_prs_def prs_try_block_def fetched_pulls_def split: prod.splits)
qed

lemma repo_prs_records:
  assumes "fetched_pulls up repo = Inr pulls" and "pulls_have_user pulls"
  shows "list_all2 (\<lambda>pr x. aggregated up repo pr = Inr x)
           (filter (own_pull cfg) pulls) (repo_prs cfg up repo)"
proof -
  obtain owner repoName where sp: "split_repo repo = (owner, repoName)"
    by (cases "split_repo repo") auto
  obtain xs where xs: "list_all2 (\<lambda>pr x. aggregated up repo pr = Inr x)
      (filter (own_pull cfg) pulls) xs"
    using aggregated_own by blast
  have "repo_prs cfg up repo = xs"
    using assms(1) sp
    by (simp add: repo_prs_def prs_try_block_def fetched_pulls_def
        authored_by_user_filter(1) [OF assms(2)] for_userPRs_records [OF sp xs])
  then show ?thesis
    using xs by simp
qed

lemma repo_prs_member:
  "x \<in> set (repo_prs cfg up repo) \<longleftrightarrow>
     (\<exists>pulls pr. fetched_pulls up repo = Inr pulls \<and> pulls_have_user pulls \<and>
        pr \<in> set pulls \<and> own_pull cfg pr \<and> aggregated up repo pr = Inr x)"
proof (cases "fetched_pulls up repo")
  case (Inl e)
  then show ?thesis
    by (simp add: repo_prs_failed)
next
  case (Inr pulls)
  show ?thesis
  proof (cases "pulls_have_user pulls")
    case False
    then show ?thesis
      using Inr by (simp add: repo_prs_ghost)
  next
    case True
    show ?thesis
      unfolding aggregated_member [OF repo_prs_records [OF Inr True]]
      using Inr True by auto
  qed
qed

lemma prs_try_block_eq:
  "snd (prs_try_block cfg up repo allPRs) = allPRs @ repo_prs cfg up repo"
proof -
  obtain owner repoName where sp: "split_repo repo = (owner, repoName)"
    by (cases "split_repo repo") auto
  show ?thesis
    unfolding repo_prs_def prs_try_block_def sp
    using for_userPRs_acc [of up repo owner repoName _ allPRs]
    by (simp split: sum.split)
qed

lemma for_repos_prs_eq:
  "for_repos_prs cfg up repos allPRs = allPRs @ concat (map (repo_prs cfg up) repos)"
proof (induction repos arbitrary: allPRs)
  case Nil
  show ?case by simp
next
  case (Cons repo repos)
  have "for_repos_prs cfg up (repo # repos) allPRs =
      for_repos_prs cfg up repos (snd (prs_try_block cfg up repo allPRs))"
    by (simp split: prod.split option.split)
  then show ?case
    by (simp add: Cons.IH prs_try_block_eq)
qed

lemma api_prs_eq:
  "api_prs cfg up =
     Ok200 (js_sort (newest_first pr_created_at)
              (concat (map (repo_prs cfg up) (repositories cfg))))"
  by (simp add: api_prs_def api_prs_body_def for_repos_prs_eq)

lemma repo_prs_username:
  "repo_prs (cfg\<lparr>repositories := repos\<rparr>) up = repo_prs cfg up"
proof -
  have a: "authored_by_user (cfg\<lparr>repositories := repos\<rparr>) = authored_by_user cfg"
    by (rule ext) (simp add: authored_by_user_def split: option.split)
  show ?thesis
  proof (rule ext)
    fix repo
    show "repo_prs (cfg\<lparr>repositories := repos\<rparr>) up repo = repo_prs cfg up repo"
      unfolding repo_prs_def prs_try_block_def a by (rule refl)
  qed
qed

lemma api_prs_member:
  assumes "api_prs cfg up = Ok200 prs"
  shows "x \<in> set prs \<longleftrightarrow>
     (\<exists>repo \<in> set (repositories cfg). \<exists>pulls pr. fetched_pulls up repo = Inr pulls \<and>
        pulls_have_user pulls \<and> pr \<in> set pulls \<and> own_pull cfg pr \<and>
        aggregated up repo pr = Inr x)"
proof -
  have "set prs = (\<Union>repo \<in> set (repositories cfg). set (repo_prs cfg up repo))"
    using assms by (auto simp add: api_prs_eq js_sort_set)
  then show ?thesis
    by (auto simp add: repo_prs_member)
qed

lemma api_prs_descending:
  assumes "api_prs cfg up = Ok200 prs"
  shows "sorted_wrt (\<lambda>a b. pr_created_at b \<le> pr_created_at a) prs"
  using assms js_sort_descending [of pr_created_at] by (auto simp add: api_prs_eq)

lemma filter_eq_appendD:
  assumes "filter P xs = ys @ zs"
  shows "\<exists>us vs. xs = us @ vs \<and> filter P us = ys \<and> filter P vs = zs"
  using assms
proof (induction ys arbitrary: xs)
  case Nil
  then have "xs = [] @ xs \<and> filter P [] = [] \<and> filter P xs = zs"
    by simp
  then show ?case by blast
next
  case (Cons y ys)
  then obtain u v where u: "xs = u @ y # v" "\<forall>a \<in> set u. \<not> P a" "P y" "ys @ zs = filter P v"
    by (auto simp add: filter_eq_Cons_iff)
  obtain us vs where v: "v = us @ vs" "filter P us = ys" "filter P vs = zs"
    using Cons.IH [of v] u(4) by auto
  have "xs = (u @ y # us) @ vs \<and> filter P (u @ y # us) = y # ys \<and> filter P vs = zs"
    using u v by simp
  then show ?case by blast
qed

lemma filter_two_in_order:
  assumes "filter P xs = as @ x # bs @ y # cs"
  shows "\<exists>us vs ws. xs = us @ x # vs @ y # ws"
proof -
  obtain u1 v1 where 1: "xs = u1 @ v1" "filter P v1 = x # bs @ y # cs"
    using filter_eq_appendD [OF assms] by blast
  obtain u2 v2 where 2: "v1 = u2 @ x # v2" "filter P v2 = bs @ y # cs"
    using 1(2) by (auto simp add: filter_eq_Cons_iff)
  obtain u3 v3 where 3: "v2 = u3 @ v3" "filter P v3 = y # cs"
    using filter_eq_appendD [OF 2(2)] by blast
  obtain u4 v4 where 4: "v3 = u4 @ y # v4"
    using 3(2) by (auto simp add: filter_eq_Cons_iff)
  have "xs = (u1 @ u2) @ x # (u3 @ u4) @ y # v4"
    by (simp add: 1(1) 2(1) 3(1) 4)
  then show ?thesis by blast
qed

lemma split_repo_examples:
  "split_repo ''octo/app'' = (''octo'', ''app'')"
  "split_repo ''octo/lib'' = (''octo'', ''lib'')"
  "split_repo ''octo/docs'' = (''octo'', ''docs'')"
  "split_repo ''octo/old'' = (''octo'', ''old'')"
  "split_repo ''octo/gone'' = (''octo'', ''gone'')"
  by (simp_all add: split_repo_def)

lemma fetched_pulls_examples:
  "fetched_pulls pulls_upstream ''octo/app'' = Inr [mk_pull 101 4 ''octocat'' 1714557600000]"
  "fetched_pulls pulls_upstream ''octo/lib'' =
     Inr [mk_pull 202 5 ''hubot'' 1714644000000, mk_pull 203 6 ''octocat'' 1714557600000,
          mk_pull 204 7 ''octocat'' 1714730400000]"
  "fetched_pulls pulls_upstream ''octo/docs'' = Inr [mk_pull 301 9 ''hubot'' 1714644000000]"
  "fetched_pulls pulls_upstream ''octo/gone'' =
     Inl (GitHubApiError 404 ''Not Found'' ''no such repository'')"
  "fetched_pulls pulls_upstream ''octo/old'' =
     Inr [mk_pull 401 11 ''octocat'' 1714557600000, ghost_pull 402 12 1600000000000]"
  by (simp_all add: fetched_pulls_def split_repo_examples pulls_upstream_def
      githubRequest_ok_json githubRequest_not_found)

lemma mk_pull_fields:
  "pull_user (mk_pull i n who t) = Some \<lparr> login = who \<rparr>"
  "pull_number (mk_pull i n who t) = n"
  "pull_created_at (mk_pull i n who t) = t"
  "sha (pull_head (mk_pull i n who t)) = ''0123456789abcdef''"
  "pull_user (ghost_pull i n t) = None"
  by (simp_all add: mk_pull_def ghost_pull_def)

lemma own_pull_examples:
  "own_pull (octocat_on repos) (mk_pull i n who t) \<longleftrightarrow> who = ''octocat''"
  "\<not> own_pull cfg (ghost_pull i n t)"
  by (auto simp add: own_pull_def mk_pull_fields octocat_on_def)

lemma pulls_have_user_examples:
  "pulls_have_user [mk_pull 101 4 ''octocat'' 1714557600000]"
  "pulls_have_user [mk_pull 202 5 ''hubot'' 1714644000000, mk_pull 203 6 ''octocat'' 1714557600000,
          mk_pull 204 7 ''octocat'' 1714730400000]"
  "pulls_have_user [mk_pull 301 9 ''hubot'' 1714644000000]"
  "\<not> pulls_have_user [mk_pull 401 11 ''octocat'' 1714557600000, ghost_pull 402 12 1600000000000]"
  by (simp_all add: pulls_have_user_def mk_pull_fields)

text \<open>
  Claim C9. Whatever the upstream does (any repository's PR list failing, any of the
  review, requested-reviewer, comment and workflow fetches of any pull request failing,
  by rejection, by a non-2xx status or by an unparsable body), \<^verbatim>\<open>/api/prs\<close> answers 200
  with an array and never 500: each helper fulfils with its fallback value, no exception
  leaves the loop over the pull requests that passed the author filter, and the body of
  the outer \<^verbatim>\<open>try\<close> completes.
\<close>

theorem api_prs_never_500:
  "(\<exists>prs. api_prs cfg up = Ok200 prs) \<and>
   (\<forall>msg. api_prs cfg up \<noteq> Error500 msg) \<and>
   (\<forall>owner repo n. \<exists>s. getPRReviews up owner repo n = Inr s) \<and>
   (\<forall>owner repo n. \<exists>t. getLatestPRComment up owner repo n = Inr t) \<and>
   (\<forall>owner repo n headSha. \<exists>ws. getPRWorkflows up owner repo n headSha = Inr ws) \<and>
   (\<forall>repo owner repoName prs userPRs allPRs.
      array_filter (authored_by_user cfg) prs = Inr userPRs \<longrightarrow>
        fst (for_userPRs up repo owner repoName userPRs allPRs) = None) \<and>
   (\<exists>allPRs. api_prs_body cfg up = Inr allPRs)"
proof -
  have a: "\<exists>prs. api_prs cfg up = Ok200 prs"
    by (simp add: api_prs_eq)
  have b: "\<forall>msg. api_prs cfg up \<noteq> Error500 msg"
    by (simp add: api_prs_eq)
  have c: "\<exists>allPRs. api_prs_body cfg up = Inr allPRs"
    by (simp add: api_prs_body_def)
  have d: "\<forall>repo owner repoName prs userPRs allPRs.
      array_filter (authored_by_user cfg) prs = Inr userPRs \<longrightarrow>
        fst (for_userPRs up repo owner repoName userPRs allPRs) = None"
  proof (intro allI impI)
    fix repo owner repoName prs userPRs allPRs
    assume "array_filter (authored_by_user cfg) prs = Inr userPRs"
    then have "set userPRs \<subseteq> set prs \<and> (\<forall>pr \<in> set prs. \<exists>b. authored_by_user cfg pr = Inr b)"
      by (rule array_filter_sound)
    then have "\<forall>pr \<in> set userPRs. pull_user pr \<noteq> None"
      by (auto simp add: authored_by_user_def split: option.splits)
    then show "fst (for_userPRs up repo owner repoName userPRs allPRs) = None"
      by (rule for_userPRs_no_throw)
  qed
  have e: "\<forall>owner repo n. \<exists>s. getPRReviews up owner repo n = Inr s"
    using getPRReviews_fulfils by blast
  have f: "\<forall>owner repo n. \<exists>t. getLatestPRComment up owner repo n = Inr t"
    using getLatestPRComment_fulfils by blast
  have g: "\<forall>owner repo n headSha. \<exists>ws. getPRWorkflows up owner repo n headSha = Inr ws"
    using getPRWorkflows_fulfils by blast
  show ?thesis
    using a b e f g d c by (intro conjI)
qed

theorem api_prs_never_500_witness:
  "fetched_pulls broken_upstream ''octo/gone'' =
     Inl (GitHubApiError 404 ''Not Found'' ''no such repository'') \<and>
   githubRequest (pull_reviews broken_upstream ''octo'' ''app'' 4) =
     Inl (FetchError ''socket hang up'') \<and>
   githubRequest (issue_comments broken_upstream ''octo'' ''app'' 4) =
     Inl (GitHubApiError 403 ''Forbidden'' ''rate limit exceeded'') \<and>
   githubRequest (pull_comments broken_upstream ''octo'' ''app'' 4) = Inl JsonError \<and>
   githubRequest (runs_by_head_sha broken_upstream ''octo'' ''app'' ''0123456789abcdef'') =
     Inl (GitHubApiError 502 ''Bad Gateway'' []) \<and>
   array_filter (authored_by_user (octocat_on [''octo/gone'', ''octo/app'']))
       [mk_pull 101 4 ''octocat'' 1714557600000] =
     Inr [mk_pull 101 4 ''octocat'' 1714557600000] \<and>
   (\<exists>x. pr_record_of ''octo/app'' (mk_pull 101 4 ''octocat'' 1714557600000)
            empty_summary None [] = Inr x \<and>
        api_prs (octocat_on [''octo/gone'', ''octo/app'']) broken_upstream = Ok200 [x])"
proof -
  let ?cfg = "octocat_on [''octo/gone'', ''octo/app'']"
  let ?pr = "mk_pull 101 4 ''octocat'' 1714557600000"
  have f: "fetched_pulls broken_upstream ''octo/gone'' =
     Inl (GitHubApiError 404 ''Not Found'' ''no such repository'')"
    by (simp add: fetched_pulls_def split_repo_examples broken_upstream_def pulls_upstream_def
        githubRequest_not_found)
  have r: "githubRequest (pull_reviews broken_upstream ''octo'' ''app'' 4) =
     Inl (FetchError ''socket hang up'')"
    by (simp add: broken_upstream_def)
  have i: "githubRequest (issue_comments broken_upstream ''octo'' ''app'' 4) =
     Inl (GitHubApiError 403 ''Forbidden'' ''rate limit exceeded'')"
    by (simp add: broken_upstream_def response_ok_def)
  have p: "githubRequest (pull_comments broken_upstream ''octo'' ''app'' 4) = Inl JsonError"
    by (simp add: broken_upstream_def response_ok_def)
  have w: "githubRequest (runs_by_head_sha broken_upstream ''octo'' ''app'' ''0123456789abcdef'') =
     Inl (GitHubApiError 502 ''Bad Gateway'' [])"
    by (simp add: broken_upstream_def response_ok_def)
  have g: "fetched_pulls broken_upstream ''octo/app'' = Inr [?pr]"
    by (simp add: fetched_pulls_def split_repo_examples broken_upstream_def pulls_upstream_def
        githubRequest_ok_json)
  have hu: "pulls_have_user [?pr]"
    by (rule pulls_have_user_examples(1))
  have own: "filter (own_pull ?cfg) [?pr] = [?pr]"
    by (simp add: own_pull_examples)
  have af: "array_filter (authored_by_user ?cfg) [?pr] = Inr [?pr]"
    using authored_by_user_filter(1) [OF hu, of ?cfg] own by simp
  have r': "getPRReviews broken_upstream ''octo'' ''app'' 4 = Inr empty_summary"
    using r by (simp add: getPRReviews_def promise_all2_def)
  have c': "getLatestPRComment broken_upstream ''octo'' ''app'' 4 = Inr None"
    using i by (simp add: getLatestPRComment_def promise_all2_def)
  have w': "getPRWorkflows broken_upstream ''octo'' ''app'' 4 ''0123456789abcdef'' = Inr []"
    using w by (simp add: getPRWorkflows_def)
  have agg: "aggregated broken_upstream ''octo/app'' ?pr =
      pr_record_of ''octo/app'' ?pr empty_summary None []"
    by (simp add: aggregated_def split_repo_examples mk_pull_fields r' c' w')
  obtain x where x: "pr_record_of ''octo/app'' ?pr empty_summary None [] = Inr x"
    using pr_record_of_Inr [OF mk_pull_fields(1)] by blast
  have "list_all2 (\<lambda>pr x. aggregated broken_upstream ''octo/app'' pr = Inr x)
      (filter (own_pull ?cfg) [?pr]) (repo_prs ?cfg broken_upstream ''octo/app'')"
    using g hu by (rule repo_prs_records)
  then have app: "repo_prs ?cfg broken_upstream ''octo/app'' = [x]"
    unfolding own using agg x by (auto simp add: list_all2_Cons1)
  have gone: "repo_prs ?cfg broken_upstream ''octo/gone'' = []"
    using f by (rule repo_prs_failed)
  have reps: "repositories ?cfg = [''octo/gone'', ''octo/app'']"
    by (simp add: octocat_on_def)
  obtain prs where prs: "api_prs ?cfg broken_upstream = Ok200 prs"
    using api_prs_never_500 [of ?cfg broken_upstream] by blast
  have "prs = [x]"
    using prs unfolding api_prs_eq reps by (simp add: app gone js_sort_def)
  then show ?thesis
    using f r i p w af x prs by simp
qed

text \<open>
  The inner \<^verbatim>\<open>catch\<close> also takes the \<^verbatim>\<open>TypeError\<close> of \<^verbatim>\<open>pr.user.login\<close>. A repository
  whose list was fetched but holds one pull request without a user contributes nothing,
  the configured user's own pull request in that list included, whether or not another
  repository failed.
\<close>

theorem api_prs_other_repository_dropped_counterexample:
  "repositories (octocat_on [''octo/gone'', ''octo/old'']) = [''octo/gone'', ''octo/old''] \<and>
   fetched_pulls pulls_upstream ''octo/gone'' =
     Inl (GitHubApiError 404 ''Not Found'' ''no such repository'') \<and>
   fetched_pulls pulls_upstream ''octo/old'' =
     Inr [mk_pull 401 11 ''octocat'' 1714557600000, ghost_pull 402 12 1600000000000] \<and>
   own_pull (octocat_on [''octo/gone'', ''octo/old'']) (mk_pull 401 11 ''octocat'' 1714557600000) \<and>
   api_prs (octocat_on [''octo/gone'', ''octo/old'']) pulls_upstream = Ok200 []"
proof -
  let ?cfg = "octocat_on [''octo/gone'', ''octo/old'']"
  have reps: "repositories ?cfg = [''octo/gone'', ''octo/old'']"
    by (simp add: octocat_on_def)
  have own: "own_pull ?cfg (mk_pull 401 11 ''octocat'' 1714557600000)"
    by (simp add: own_pull_examples)
  have gone: "repo_prs ?cfg pulls_upstream ''octo/gone'' = []"
    using fetched_pulls_examples(4) by (rule repo_prs_failed)
  have old: "repo_prs ?cfg pulls_upstream ''octo/old'' = []"
    using fetched_pulls_examples(5) pulls_have_user_examples(4) by (rule repo_prs_ghost)
  have "api_prs ?cfg pulls_upstream = Ok200 []"
    unfolding api_prs_eq reps by (simp add: gone old js_sort_def)
  then show ?thesis
    using reps fetched_pulls_examples(4) fetched_pulls_examples(5) own by simp
qed

text \<open>
  Claim C6, as the code has it. When the open-PR list of one configured repository cannot
  be fetched, \<^verbatim>\<open>/api/prs\<close> still answers 200, with the answer it would give were that
  repository not configured: no record of the answer belongs to the failing repository,
  and the answer is sorted by creation time, newest first. Every pull request of the
  configured user in any other repository is in the answer when that repository's list
  was fetched and every pull request in that list has a user; a repository whose fetched
  list holds a pull request without a user has no record in the answer.
\<close>

theorem api_prs_survives_failed_repository:
  assumes "repositories cfg = before @ failing # after"
    and "fetched_pulls up failing = Inl e"
  shows "\<exists>prs. api_prs cfg up = Ok200 prs \<and>
     api_prs (cfg\<lparr>repositories := before @ after\<rparr>) up = Ok200 prs \<and>
     (\<forall>x \<in> set prs. pr_repository x \<noteq> failing) \<and>
     (\<forall>repo \<in> set (before @ after). \<forall>pulls.
        fetched_pulls up repo = Inr pulls \<and> pulls_have_user pulls \<longrightarrow>
        (\<forall>pr \<in> set pulls. own_pull cfg pr \<longrightarrow>
           (\<exists>x \<in> set prs. aggregated up repo pr = Inr x \<and> pr_repository x = repo \<and>
              pr_number x = pull_number pr))) \<and>
     (\<forall>repo pulls.
        fetched_pulls up repo = Inr pulls \<and> \<not> pulls_have_user pulls \<longrightarrow>
        (\<forall>x \<in> set prs. pr_repository x \<noteq> repo)) \<and>
     sorted_wrt (\<lambda>a b. pr_created_at b \<le> pr_created_at a) prs"
proof -
  obtain prs where prs: "api_prs cfg up = Ok200 prs"
    by (simp add: api_prs_eq)
  have none: "repo_prs cfg up failing = []"
    using assms(2) by (rule repo_prs_failed)
  have same: "api_prs (cfg\<lparr>repositories := before @ after\<rparr>) up = Ok200 prs"
    using prs by (simp add: api_prs_eq assms(1) none repo_prs_username)
  have origin: "\<And>x. x \<in> set prs \<Longrightarrow>
      \<exists>pulls. fetched_pulls up (pr_repository x) = Inr pulls \<and> pulls_have_user pulls"
  proof -
    fix x
    assume "x \<in> set prs"
    then obtain repo pulls pr where "fetched_pulls up repo = Inr pulls" "pulls_have_user pulls"
      "aggregated up repo pr = Inr x"
      unfolding api_prs_member [OF prs] by blast
    then show "\<exists>pulls. fetched_pulls up (pr_repository x) = Inr pulls \<and> pulls_have_user pulls"
      using aggregated_fields(1) [of up repo pr x] by auto
  qed
  have miss: "\<forall>x \<in> set prs. pr_repository x \<noteq> failing"
    using origin assms(2) by fastforce
  have ghost: "\<forall>repo pulls.
        fetched_pulls up repo = Inr pulls \<and> \<not> pulls_have_user pulls \<longrightarrow>
        (\<forall>x \<in> set prs. pr_repository x \<noteq> repo)"
    using origin by fastforce
  have others: "\<forall>repo \<in> set (before @ after). \<forall>pulls.
        fetched_pulls up repo = Inr pulls \<and> pulls_have_user pulls \<longrightarrow>
        (\<forall>pr \<in> set pulls. own_pull cfg pr \<longrightarrow>
           (\<exists>x \<in> set prs. aggregated up repo pr = Inr x \<and> pr_repository x = repo \<and>
              pr_number x = pull_number pr))"
  proof (intro ballI allI impI)
    fix repo pulls pr
    assume repo: "repo \<in> set (before @ after)"
      and pulls: "fetched_pulls up repo = Inr pulls \<and> pulls_have_user pulls"
      and pr: "pr \<in> set pulls"
      and mine: "own_pull cfg pr"
    have "\<not> (\<exists>e. aggregated up repo pr = Inl e)"
      using own_pull_has_user [OF mine] unfolding aggregated_Inl_iff by simp
    then obtain x where x: "aggregated up repo pr = Inr x"
      by (cases "aggregated up repo pr") auto
    have "repo \<in> set (repositories cfg)"
      using repo by (auto simp add: assms(1))
    then have "x \<in> set prs"
      unfolding api_prs_member [OF prs] using pulls pr mine x by blast
    then show "\<exists>x \<in> set prs. aggregated up repo pr = Inr x \<and> pr_repository x = repo \<and>
              pr_number x = pull_number pr"
      using x aggregated_fields(1,2) [OF x] by blast
  qed
  show ?thesis
    using prs same miss others ghost api_prs_descending [OF prs] by blast
qed

theorem api_prs_survives_failed_repository_witness:
  "repositories (octocat_on [''octo/gone'', ''octo/app'']) = [] @ ''octo/gone'' # [''octo/app''] \<and>
   fetched_pulls pulls_upstream ''octo/gone'' =
     Inl (GitHubApiError 404 ''Not Found'' ''no such repository'') \<and>
   fetched_pulls pulls_upstream ''octo/app'' = Inr [mk_pull 101 4 ''octocat'' 1714557600000] \<and>
   pulls_have_user [mk_pull 101 4 ''octocat'' 1714557600000] \<and>
   own_pull (octocat_on [''octo/gone'', ''octo/app'']) (mk_pull 101 4 ''octocat'' 1714557600000) \<and>
   (\<exists>prs. api_prs (octocat_on [''octo/gone'', ''octo/app'']) pulls_upstream = Ok200 prs \<and>
      (\<exists>x. x \<in> set prs \<and> pr_repository x = ''octo/app'' \<and> pr_number x = 4) \<and>
      (\<forall>x. x \<in> set prs \<longrightarrow> pr_repository x \<noteq> ''octo/gone''))"
proof -
  let ?cfg = "octocat_on [''octo/gone'', ''octo/app'']"
  let ?pr = "mk_pull 101 4 ''octocat'' 1714557600000"
  have reps: "repositories ?cfg = [] @ ''octo/gone'' # [''octo/app'']"
    by (simp add: octocat_on_def)
  have mine: "own_pull ?cfg ?pr"
    by (simp add: own_pull_examples)
  obtain prs where prs: "api_prs ?cfg pulls_upstream = Ok200 prs"
    and miss: "\<forall>x \<in> set prs. pr_repository x \<noteq> ''octo/gone''"
    and others: "\<forall>repo \<in> set ([] @ [''octo/app'']). \<forall>pulls.
        fetched_pulls pulls_upstream repo = Inr pulls \<and> pulls_have_user pulls \<longrightarrow>
        (\<forall>pr \<in> set pulls. own_pull ?cfg pr \<longrightarrow>
           (\<exists>x \<in> set prs. aggregated pulls_upstream repo pr = Inr x \<and> pr_repository x = repo \<and>
              pr_number x = pull_number pr))"
    using api_prs_survives_failed_repository [OF reps fetched_pulls_examples(4)] by blast
  have "\<exists>x \<in> set prs. aggregated pulls_upstream ''octo/app'' ?pr = Inr x \<and>
      pr_repository x = ''octo/app'' \<and> pr_number x = pull_number ?pr"
    using others fetched_pulls_examples(1) pulls_have_user_examples(1) mine by simp
  then have there: "\<exists>x. x \<in> set prs \<and> pr_repository x = ''octo/app'' \<and> pr_number x = 4"
    by (auto simp add: mk_pull_fields)
  show ?thesis
    using reps fetched_pulls_examples(4) fetched_pulls_examples(1) pulls_have_user_examples(1)
      mine prs there miss by blast
qed

text \<open>
  Claim C7. The answer of \<^verbatim>\<open>/api/prs\<close> is sorted by creation time, newest first, and
  the sort is stable: the records with one and the same creation time are in the order in
  which the loop collected them, that is the order of the configured repository list (and
  upstream order inside a repository). In particular a record of an earlier part of the
  repository list comes before a record with the same creation time of a later part.
\<close>

theorem api_prs_sorted_stable:
  "\<exists>prs. api_prs cfg up = Ok200 prs \<and>
     sorted_wrt (\<lambda>a b. pr_created_at b \<le> pr_created_at a) prs \<and>
     (\<forall>t. filter (\<lambda>x. pr_created_at x = t) prs =
          filter (\<lambda>x. pr_created_at x = t)
            (concat (map (repo_prs cfg up) (repositories cfg)))) \<and>
     (\<forall>earlier later x y.
        repositories cfg = earlier @ later \<and>
        x \<in> set (concat (map (repo_prs cfg up) earlier)) \<and>
        y \<in> set (concat (map (repo_prs cfg up) later)) \<and>
        pr_created_at x = pr_created_at y \<longrightarrow>
          (\<exists>us vs ws. prs = us @ x # vs @ y # ws))"
proof -
  let ?all = "concat (map (repo_prs cfg up) (repositories cfg))"
  obtain prs where prs: "api_prs cfg up = Ok200 prs"
    by (simp add: api_prs_eq)
  have eq: "prs = js_sort (newest_first pr_created_at) ?all"
    using prs by (simp add: api_prs_eq)
  have stable: "\<forall>t. filter (\<lambda>x. pr_created_at x = t) prs = filter (\<lambda>x. pr_created_at x = t) ?all"
    unfolding eq by (simp add: js_sort_stable)
  have order: "\<forall>earlier later x y.
        repositories cfg = earlier @ later \<and>
        x \<in> set (concat (map (repo_prs cfg up) earlier)) \<and>
        y \<in> set (concat (map (repo_prs cfg up) later)) \<and>
        pr_created_at x = pr_created_at y \<longrightarrow>
          (\<exists>us vs ws. prs = us @ x # vs @ y # ws)"
  proof (intro allI impI)
    fix earlier later x y
    assume h: "repositories cfg = earlier @ later \<and>
        x \<in> set (concat (map (repo_prs cfg up) earlier)) \<and>
        y \<in> set (concat (map (repo_prs cfg up) later)) \<and>
        pr_created_at x = pr_created_at y"
    let ?P = "\<lambda>z. pr_created_at z = pr_created_at x"
    let ?e = "concat (map (repo_prs cfg up) earlier)"
    let ?l = "concat (map (repo_prs cfg up) later)"
    have "x \<in> set (filter ?P ?e)"
      using h by simp
    then obtain as bs where x: "filter ?P ?e = as @ x # bs"
      by (meson split_list)
    have "y \<in> set (filter ?P ?l)"
      using h by simp
    then obtain cs ds where y: "filter ?P ?l = cs @ y # ds"
      by (meson split_list)
    have "filter ?P prs = filter ?P (?e @ ?l)"
      using stable h by simp
    then have "filter ?P prs = as @ x # (bs @ cs) @ y # ds"
      using x y by simp
    then show "\<exists>us vs ws. prs = us @ x # vs @ y # ws"
      by (rule filter_two_in_order)
  qed
  show ?thesis
    using prs api_prs_descending [OF prs] stable order by blast
qed

lemma repo_prs_single:
  assumes "fetched_pulls up repo = Inr pulls" and "pulls_have_user pulls"
    and "filter (own_pull cfg) pulls = [pr]"
  shows "\<exists>x. aggregated up repo pr = Inr x \<and> repo_prs cfg up repo = [x]"
  using repo_prs_records [OF assms(1,2), of cfg] unfolding assms(3)
  by (auto simp add: list_all2_Cons1)

lemma repo_prs_none:
  assumes "fetched_pulls up repo = Inr pulls" and "pulls_have_user pulls"
    and "filter (own_pull cfg) pulls = []"
  shows "repo_prs cfg up repo = []"
  using repo_prs_records [OF assms(1,2), of cfg] unfolding assms(3) by simp

lemma repo_prs_pair:
  assumes "fetched_pulls up repo = Inr pulls" and "pulls_have_user pulls"
    and "filter (own_pull cfg) pulls = [p, q]"
  shows "\<exists>x y. aggregated up repo p = Inr x \<and> aggregated up repo q = Inr y \<and>
           repo_prs cfg up repo = [x, y]"
  using repo_prs_records [OF assms(1,2), of cfg] unfolding assms(3)
  by (auto simp add: list_all2_Cons1)

theorem api_prs_sorted_stable_witness:
  "repositories (octocat_on [''octo/app'', ''octo/lib'']) = [''octo/app''] @ [''octo/lib''] \<and>
   (\<exists>x y prs.
      aggregated pulls_upstream ''octo/app'' (mk_pull 101 4 ''octocat'' 1714557600000) = Inr x \<and>
      aggregated pulls_upstream ''octo/lib'' (mk_pull 203 6 ''octocat'' 1714557600000) = Inr y \<and>
      x \<in> set (concat (map (repo_prs (octocat_on [''octo/app'', ''octo/lib'']) pulls_upstream)
                   [''octo/app''])) \<and>
      y \<in> set (concat (map (repo_prs (octocat_on [''octo/app'', ''octo/lib'']) pulls_upstream)
                   [''octo/lib''])) \<and>
      pr_created_at x = pr_created_at y \<and>
      api_prs (octocat_on [''octo/app'', ''octo/lib'']) pulls_upstream = Ok200 prs \<and>
      (\<exists>us vs ws. prs = us @ x # vs @ y # ws) \<and>
      map pr_number prs = [7, 4, 6] \<and>
      map pr_repository prs = [''octo/lib'', ''octo/app'', ''octo/lib''])"
proof -
  let ?cfg = "octocat_on [''octo/app'', ''octo/lib'']"
  let ?p = "mk_pull 101 4 ''octocat'' 1714557600000"
  let ?q = "mk_pull 203 6 ''octocat'' 1714557600000"
  let ?r = "mk_pull 204 7 ''octocat'' 1714730400000"
  have reps: "repositories ?cfg = [''octo/app''] @ [''octo/lib'']"
    by (simp add: octocat_on_def)
  have reps': "repositories ?cfg = [''octo/app'', ''octo/lib'']"
    by (simp add: octocat_on_def)
  have "filter (own_pull ?cfg) [?p] = [?p]"
    by (simp add: own_pull_examples)
  then obtain x where x: "aggregated pulls_upstream ''octo/app'' ?p = Inr x"
    and app: "repo_prs ?cfg pulls_upstream ''octo/app'' = [x]"
    using repo_prs_single [OF fetched_pulls_examples(1) pulls_have_user_examples(1)] by blast
  have "filter (own_pull ?cfg) [mk_pull 202 5 ''hubot'' 1714644000000, ?q, ?r] = [?q, ?r]"
    by (simp add: own_pull_examples)
  then obtain y z where y: "aggregated pulls_upstream ''octo/lib'' ?q = Inr y"
    and z: "aggregated pulls_upstream ''octo/lib'' ?r = Inr z"
    and lib: "repo_prs ?cfg pulls_upstream ''octo/lib'' = [y, z]"
    using repo_prs_pair [OF fetched_pulls_examples(2) pulls_have_user_examples(2)] by blast
  have t: "pr_created_at x = 1714557600000" "pr_created_at y = 1714557600000"
    "pr_created_at z = 1714730400000"
    using aggregated_fields(4) [OF x] aggregated_fields(4) [OF y] aggregated_fields(4) [OF z]
    by (simp_all add: mk_pull_fields)
  have f: "pr_number x = 4" "pr_number y = 6" "pr_number z = 7"
    "pr_repository x = ''octo/app''" "pr_repository y = ''octo/lib''"
    "pr_repository z = ''octo/lib''"
    using aggregated_fields(1,2) [OF x] aggregated_fields(1,2) [OF y]
      aggregated_fields(1,2) [OF z]
    by (simp_all add: mk_pull_fields)
  have xin: "x \<in> set (concat (map (repo_prs ?cfg pulls_upstream) [''octo/app'']))"
    by (simp add: app)
  have yin: "y \<in> set (concat (map (repo_prs ?cfg pulls_upstream) [''octo/lib'']))"
    by (simp add: lib)
  have tie: "pr_created_at x = pr_created_at y"
    by (simp add: t)
  obtain prs where prs: "api_prs ?cfg pulls_upstream = Ok200 prs"
    and order: "\<forall>earlier later x y.
        repositories ?cfg = earlier @ later \<and>
        x \<in> set (concat (map (repo_prs ?cfg pulls_upstream) earlier)) \<and>
        y \<in> set (concat (map (repo_prs ?cfg pulls_upstream) later)) \<and>
        pr_created_at x = pr_created_at y \<longrightarrow>
          (\<exists>us vs ws. prs = us @ x # vs @ y # ws)"
    using api_prs_sorted_stable [of ?cfg pulls_upstream]
    by (elim exE conjE) (rule that; assumption)
  have o: "\<exists>us vs ws. prs = us @ x # vs @ y # ws"
    using order reps xin yin tie by blast
  have "prs = js_sort (newest_first pr_created_at) [x, y, z]"
    using prs unfolding api_prs_eq reps' by (simp add: app lib)
  then have v: "prs = [z, x, y]"
    by (simp add: js_sort_def newest_first_def t)
  have m: "map pr_number prs = [7, 4, 6]"
    "map pr_repository prs = [''octo/lib'', ''octo/app'', ''octo/lib'']"
    unfolding v by (simp_all add: f)
  have c: "aggregated pulls_upstream ''octo/app'' ?p = Inr x \<and>
      aggregated pulls_upstream ''octo/lib'' ?q = Inr y \<and>
      x \<in> set (concat (map (repo_prs ?cfg pulls_upstream) [''octo/app''])) \<and>
      y \<in> set (concat (map (repo_prs ?cfg pulls_upstream) [''octo/lib''])) \<and>
      pr_created_at x = pr_created_at y \<and>
      api_prs ?cfg pulls_upstream = Ok200 prs \<and>
      (\<exists>us vs ws. prs = us @ x # vs @ y # ws) \<and>
      map pr_number prs = [7, 4, 6] \<and>
      map pr_repository prs = [''octo/lib'', ''octo/app'', ''octo/lib'']"
    using x y xin yin tie prs o m by (intro conjI)
  have e: "\<exists>x y prs.
      aggregated pulls_upstream ''octo/app'' ?p = Inr x \<and>
      aggregated pulls_upstream ''octo/lib'' ?q = Inr y \<and>
      x \<in> set (concat (map (repo_prs ?cfg pulls_upstream) [''octo/app''])) \<and>
      y \<in> set (concat (map (repo_prs ?cfg pulls_upstream) [''octo/lib''])) \<and>
      pr_created_at x = pr_created_at y \<and>
      api_prs ?cfg pulls_upstream = Ok200 prs \<and>
      (\<exists>us vs ws. prs = us @ x # vs @ y # ws) \<and>
      map pr_number prs = [7, 4, 6] \<and>
      map pr_repository prs = [''octo/lib'', ''octo/app'', ''octo/lib'']"
    using c by (intro exI)
  show ?thesis
    using reps e by (rule conjI)
qed

text \<open>
  One pull request without a user in a repository's list makes the author filter throw,
  and the configured user's own pull request in the same list is not in the answer.
\<close>

theorem api_prs_own_pull_request_dropped_counterexample:
  "repositories (octocat_on [''octo/old'']) = [''octo/old''] \<and>
   fetched_pulls pulls_upstream ''octo/old'' =
     Inr [mk_pull 401 11 ''octocat'' 1714557600000, ghost_pull 402 12 1600000000000] \<and>
   map_option login (pull_user (mk_pull 401 11 ''octocat'' 1714557600000)) =
     Some (username (octocat_on [''octo/old''])) \<and>
   api_prs (octocat_on [''octo/old'']) pulls_upstream = Ok200 []"
proof -
  let ?cfg = "octocat_on [''octo/old'']"
  have reps: "repositories ?cfg = [''octo/old'']"
    by (simp add: octocat_on_def)
  have own: "map_option login (pull_user (mk_pull 401 11 ''octocat'' 1714557600000)) =
     Some (username ?cfg)"
    by (simp add: mk_pull_fields octocat_on_def)
  have old: "repo_prs ?cfg pulls_upstream ''octo/old'' = []"
    using fetched_pulls_examples(5) pulls_have_user_examples(4) by (rule repo_prs_ghost)
  have "api_prs ?cfg pulls_upstream = Ok200 []"
    unfolding api_prs_eq reps by (simp add: old js_sort_def)
  then show ?thesis
    using reps fetched_pulls_examples(5) own by simp
qed

text \<open>
  Claim C8, as the code has it. Every record of the answer of \<^verbatim>\<open>/api/prs\<close> has the
  configured username as author. The answer holds exactly the pull requests whose author
  login equals the configured username among those of the configured repositories whose
  list was fetched and in whose list every pull request has a user, each repository's in
  upstream order before the sort; a repository whose list was not fetched, or holds a pull
  request without a user, contributes nothing. With two repositories, one returning one
  pull request of the configured user and the other one pull request of somebody else,
  the answer is the one record of the first, under its repository.
\<close>

theorem api_prs_only_own_pull_requests:
  "\<exists>prs. api_prs cfg up = Ok200 prs \<and>
     (\<forall>x \<in> set prs. pr_author x = username cfg) \<and>
     (\<forall>x. x \<in> set prs \<longleftrightarrow>
        (\<exists>repo \<in> set (repositories cfg). \<exists>pulls pr. fetched_pulls up repo = Inr pulls \<and>
           pulls_have_user pulls \<and> pr \<in> set pulls \<and> own_pull cfg pr \<and>
           aggregated up repo pr = Inr x)) \<and>
     mset prs = mset (concat (map (repo_prs cfg up) (repositories cfg))) \<and>
     (\<forall>repo pulls.
        fetched_pulls up repo = Inr pulls \<and> pulls_have_user pulls \<longrightarrow>
          list_all2 (\<lambda>pr x. aggregated up repo pr = Inr x)
            (filter (own_pull cfg) pulls) (repo_prs cfg up repo)) \<and>
     (\<forall>repo pulls.
        fetched_pulls up repo = Inr pulls \<and> \<not> pulls_have_user pulls \<longrightarrow>
          repo_prs cfg up repo = []) \<and>
     (\<forall>repo e. fetched_pulls up repo = Inl e \<longrightarrow> repo_prs cfg up repo = []) \<and>
     (\<forall>r1 r2 mine other.
        repositories cfg = [r1, r2] \<and> own_pull cfg mine \<and>
        pull_user other \<noteq> None \<and> \<not> own_pull cfg other \<and>
        fetched_pulls up r1 = Inr [mine] \<and> fetched_pulls up r2 = Inr [other] \<longrightarrow>
          (\<exists>x. prs = [x] \<and> aggregated up r1 mine = Inr x \<and> pr_repository x = r1)) \<and>
     (\<forall>r1 r2 mine other.
        repositories cfg = [r1, r2] \<and> own_pull cfg mine \<and>
        pull_user other \<noteq> None \<and> \<not> own_pull cfg other \<and>
        fetched_pulls up r1 = Inr [other] \<and> fetched_pulls up r2 = Inr [mine] \<longrightarrow>
          (\<exists>x. prs = [x] \<and> aggregated up r2 mine = Inr x \<and> pr_repository x = r2))"
proof -
  obtain prs where prs: "api_prs cfg up = Ok200 prs"
    by (simp add: api_prs_eq)
  have eq: "prs = js_sort (newest_first pr_created_at)
      (concat (map (repo_prs cfg up) (repositories cfg)))"
    using prs by (simp add: api_prs_eq)
  have author: "\<forall>x \<in> set prs. pr_author x = username cfg"
  proof
    fix x
    assume "x \<in> set prs"
    then obtain repo pr where "own_pull cfg pr" "aggregated up repo pr = Inr x"
      unfolding api_prs_member [OF prs] by blast
    then show "pr_author x = username cfg"
      using aggregated_fields(5) [of up repo pr x] by (simp add: own_pull_def)
  qed
  have member: "\<forall>x. x \<in> set prs \<longleftrightarrow>
        (\<exists>repo \<in> set (repositories cfg). \<exists>pulls pr. fetched_pulls up repo = Inr pulls \<and>
           pulls_have_user pulls \<and> pr \<in> set pulls \<and> own_pull cfg pr \<and>
           aggregated up repo pr = Inr x)"
    using api_prs_member [OF prs] by blast
  have count: "mset prs = mset (concat (map (repo_prs cfg up) (repositories cfg)))"
    unfolding eq by (rule js_sort_mset)
  have records: "\<forall>repo pulls.
        fetched_pulls up repo = Inr pulls \<and> pulls_have_user pulls \<longrightarrow>
          list_all2 (\<lambda>pr x. aggregated up repo pr = Inr x)
            (filter (own_pull cfg) pulls) (repo_prs cfg up repo)"
    using repo_prs_records by blast
  have ghost: "\<forall>repo pulls.
        fetched_pulls up repo = Inr pulls \<and> \<not> pulls_have_user pulls \<longrightarrow>
          repo_prs cfg up repo = []"
    using repo_prs_ghost by blast
  have failed: "\<forall>repo e. fetched_pulls up repo = Inl e \<longrightarrow> repo_prs cfg up repo = []"
    using repo_prs_failed by blast
  have one: "\<forall>r1 r2 mine other.
        repositories cfg = [r1, r2] \<and> own_pull cfg mine \<and>
        pull_user other \<noteq> None \<and> \<not> own_pull cfg other \<and>
        fetched_pulls up r1 = Inr [mine] \<and> fetched_pulls up r2 = Inr [other] \<longrightarrow>
          (\<exists>x. prs = [x] \<and> aggregated up r1 mine = Inr x \<and> pr_repository x = r1)"
  proof (intro allI impI)
    fix r1 r2 mine other
    assume h: "repositories cfg = [r1, r2] \<and> own_pull cfg mine \<and>
        pull_user other \<noteq> None \<and> \<not> own_pull cfg other \<and>
        fetched_pulls up r1 = Inr [mine] \<and> fetched_pulls up r2 = Inr [other]"
    have u1: "pulls_have_user [mine]" and u2: "pulls_have_user [other]"
      using h own_pull_has_user by (auto simp add: pulls_have_user_def)
    obtain x where x: "aggregated up r1 mine = Inr x" and a: "repo_prs cfg up r1 = [x]"
      using repo_prs_single [of up r1 "[mine]" cfg mine] h u1 by auto
    have b: "repo_prs cfg up r2 = []"
      using repo_prs_none [of up r2 "[other]" cfg] h u2 by auto
    have "prs = [x]"
      unfolding eq using h by (simp add: a b js_sort_def)
    then show "\<exists>x. prs = [x] \<and> aggregated up r1 mine = Inr x \<and> pr_repository x = r1"
      using x aggregated_fields(1) [OF x] by simp
  qed
  have two: "\<forall>r1 r2 mine other.
        repositories cfg = [r1, r2] \<and> own_pull cfg mine \<and>
        pull_user other \<noteq> None \<and> \<not> own_pull cfg other \<and>
        fetched_pulls up r1 = Inr [other] \<and> fetched_pulls up r2 = Inr [mine] \<longrightarrow>
          (\<exists>x. prs = [x] \<and> aggregated up r2 mine = Inr x \<and> pr_repository x = r2)"
  proof (intro allI impI)
    fix r1 r2 mine other
    assume h: "repositories cfg = [r1, r2] \<and> own_pull cfg mine \<and>
        pull_user other \<noteq> None \<and> \<not> own_pull cfg other \<and>
        fetched_pulls up r1 = Inr [other] \<and> fetched_pulls up r2 = Inr [mine]"
    have u1: "pulls_have_user [mine]" and u2: "pulls_have_user [other]"
      using h own_pull_has_user by (auto simp add: pulls_have_user_def)
    obtain x where x: "aggregated up r2 mine = Inr x" and a: "repo_prs cfg up r2 = [x]"
      using repo_prs_single [of up r2 "[mine]" cfg mine] h u1 by auto
    have b: "repo_prs cfg up r1 = []"
      using repo_prs_none [of up r1 "[other]" cfg] h u2 by auto
    have "prs = [x]"
      unfolding eq using h by (simp add: a b js_sort_def)
    then show "\<exists>x. prs = [x] \<and> aggregated up r2 mine = Inr x \<and> pr_repository x = r2"
      using x aggregated_fields(1) [OF x] by simp
  qed
  show ?thesis
    using prs author member count records ghost failed one two by (intro exI [of _ prs] conjI)
qed

theorem api_prs_only_own_pull_requests_witness:
  "repositories (octocat_on [''octo/app'', ''octo/docs'']) = [''octo/app'', ''octo/docs''] \<and>
   own_pull (octocat_on [''octo/app'', ''octo/docs'']) (mk_pull 101 4 ''octocat'' 1714557600000) \<and>
   pull_user (mk_pull 301 9 ''hubot'' 1714644000000) \<noteq> None \<and>
   \<not> own_pull (octocat_on [''octo/app'', ''octo/docs'']) (mk_pull 301 9 ''hubot'' 1714644000000) \<and>
   fetched_pulls pulls_upstream ''octo/app'' = Inr [mk_pull 101 4 ''octocat'' 1714557600000] \<and>
   fetched_pulls pulls_upstream ''octo/docs'' = Inr [mk_pull 301 9 ''hubot'' 1714644000000] \<and>
   (\<exists>prs. api_prs (octocat_on [''octo/app'', ''octo/docs'']) pulls_upstream = Ok200 prs \<and>
      length prs = 1 \<and> map pr_repository prs = [''octo/app''] \<and> map pr_number prs = [4] \<and>
      map pr_author prs = [''octocat''])"
proof -
  let ?cfg = "octocat_on [''octo/app'', ''octo/docs'']"
  let ?mine = "mk_pull 101 4 ''octocat'' 1714557600000"
  let ?other = "mk_pull 301 9 ''hubot'' 1714644000000"
  have reps: "repositories ?cfg = [''octo/app'', ''octo/docs'']"
    by (simp add: octocat_on_def)
  have mine: "own_pull ?cfg ?mine"
    by (simp add: own_pull_examples)
  have other: "pull_user ?other \<noteq> None" "\<not> own_pull ?cfg ?other"
    by (simp_all add: own_pull_examples mk_pull_fields)
  obtain prs where prs: "api_prs ?cfg pulls_upstream = Ok200 prs"
    and author: "\<forall>x \<in> set prs. pr_author x = username ?cfg"
    and one: "\<forall>r1 r2 mine other.
        repositories ?cfg = [r1, r2] \<and> own_pull ?cfg mine \<and>
        pull_user other \<noteq> None \<and> \<not> own_pull ?cfg other \<and>
        fetched_pulls pulls_upstream r1 = Inr [mine] \<and>
        fetched_pulls pulls_upstream r2 = Inr [other] \<longrightarrow>
          (\<exists>x. prs = [x] \<and> aggregated pulls_upstream r1 mine = Inr x \<and> pr_repository x = r1)"
    using api_prs_only_own_pull_requests [of ?cfg pulls_upstream]
    by (elim exE conjE) (rule that; assumption)
  obtain x where v: "prs = [x]" and x: "aggregated pulls_upstream ''octo/app'' ?mine = Inr x"
    using one reps mine other fetched_pulls_examples(1) fetched_pulls_examples(3) by blast
  have "pr_author x = ''octocat''"
    using author v by (simp add: octocat_on_def)
  then have m: "length prs = 1 \<and> map pr_repository prs = [''octo/app''] \<and>
      map pr_number prs = [4] \<and> map pr_author prs = [''octocat'']"
    using aggregated_fields(1,2) [OF x] by (simp add: v mk_pull_fields)
  show ?thesis
    using reps mine other fetched_pulls_examples(1) fetched_pulls_examples(3) prs m by simp
qed

end
